theory Spec2Isabelle
  imports Main "HOL-Library.Word"
begin

section \<open>JavaScript strings\<close>

text \<open>
  A JavaScript string is a sequence of UTF-16 code units, and \<open>length\<close>, \<open>slice\<close>,
  \<open>trim\<close> and the regular expressions of \<open>server.js\<close> all count and inspect code
  units. A string is therefore a list of 16-bit words. \<open>js\<close> turns an ASCII literal of
  the source into such a list.
\<close>

type_synonym jstring = "16 word list"

definition cu :: "char \<Rightarrow> 16 word" where
  "cu c = of_char c"

definition js :: "string \<Rightarrow> jstring" where
  "js s = map cu s"

text \<open>
  The white space of \<open>String.prototype.trim\<close> and of the class \<open>\s\<close> (ECMA-262:
  WhiteSpace and LineTerminator): TAB, LF, VT, FF, CR, SPACE, NBSP, U+1680, U+2000..U+200A,
  U+2028, U+2029, U+202F, U+205F, U+3000 and U+FEFF.
\<close>

definition is_ws :: "16 word \<Rightarrow> bool" where
  "is_ws c \<longleftrightarrow>
     c = 0x09 \<or> c = 0x0A \<or> c = 0x0B \<or> c = 0x0C \<or> c = 0x0D \<or> c = 0x20 \<or> c = 0xA0 \<or>
     c = 0x1680 \<or> (0x2000 \<le> c \<and> c \<le> 0x200A) \<or> c = 0x2028 \<or> c = 0x2029 \<or>
     c = 0x202F \<or> c = 0x205F \<or> c = 0x3000 \<or> c = 0xFEFF"

text \<open>\<open>text.trim()\<close>: white space removed at both ends.\<close>

definition trim :: "jstring \<Rightarrow> jstring" where
  "trim s = rev (dropWhile is_ws (rev (dropWhile is_ws s)))"

text \<open>\<open>str.replace(/c/g, r)\<close> for a pattern of one literal character.\<close>

definition replace_all :: "16 word \<Rightarrow> jstring \<Rightarrow> jstring \<Rightarrow> jstring" where
  "replace_all c r s = concat (map (\<lambda>x. if x = c then r else [x]) s)"

text \<open>
  \<open>escape\<close> of the package \<open>validator\<close> (imported at line 7 of \<open>server.js\<close>; the package
  itself is a dependency, not a file of the repository). It is a chain of eight global
  replacements, the ampersand first:
  \<^verbatim>\<open>str.replace(/&/g, '&amp;').replace(/"/g, '&quot;').replace(/'/g, '&#x27;')
     .replace(/</g, '&lt;').replace(/>/g, '&gt;').replace(/\//g, '&#x2F;')
     .replace(/\\/g, '&#x5C;').replace(/`/g, '&#96;')\<close>
\<close>

definition escape :: "jstring \<Rightarrow> jstring" where
  "escape str =
     replace_all 0x60 (js ''&#96;'')
       (replace_all 0x5C (js ''&#x5C;'')
         (replace_all 0x2F (js ''&#x2F;'')
           (replace_all 0x3E (js ''&gt;'')
             (replace_all 0x3C (js ''&lt;'')
               (replace_all 0x27 (js ''&#x27;'')
                 (replace_all 0x22 (js ''&quot;'')
                   (replace_all 0x26 (js ''&amp;'') str)))))))"

text \<open>
  \<open>.replace(/\s+/g, " ")\<close>: every maximal run of white space becomes one space.
\<close>

function collapse_ws :: "jstring \<Rightarrow> jstring" where
  "collapse_ws [] = []"
| "collapse_ws (c # cs) =
     (if is_ws c then 0x20 # collapse_ws (dropWhile is_ws cs) else c # collapse_ws cs)"
  by pat_completeness auto
termination
  by (relation "measure length") (auto simp: length_dropWhile_le less_Suc_eq_le)

text \<open>
  Line 76: \<open>const safeText = escape(trimmed).replace(/\s+/g, " ").slice(0, 20000)\<close>.
\<close>

definition safeText :: "jstring \<Rightarrow> jstring" where
  "safeText trimmed = take 20000 (collapse_ws (escape trimmed))"

section \<open>JavaScript numbers\<close>

text \<open>
  A Number is an IEEE 754 binary64 value. \<open>Fin neg m e\<close> is the finite value
  \<open>(-1)\<^bsup>neg\<^esup> * m * 2\<^bsup>e\<^esup>\<close> with the fields of the format: \<open>m < 2\<^bsup>53\<^esup>\<close>,
  \<open>-1074 \<le> e \<le> 971\<close>, and \<open>2\<^bsup>52\<^esup> \<le> m\<close> unless \<open>e = -1074\<close>; both zeros are
  \<open>m = 0\<close>. \<open>Inf neg\<close> is an infinity. NaN is left out: \<open>JSON.parse\<close> never yields it
  and the handler does no arithmetic.
\<close>

datatype jsnum = Fin bool nat int | Inf bool

fun num_truthy :: "jsnum \<Rightarrow> bool" where
  "num_truthy (Fin neg m e) = (m \<noteq> 0)"
| "num_truthy (Inf neg) = True"

text \<open>The number of binary digits of a natural number.\<close>

fun bit_length :: "nat \<Rightarrow> nat" where
  "bit_length n = (if n = 0 then 0 else Suc (bit_length (n div 2)))"

declare bit_length.simps [simp del]

text \<open>
  The value \<open>n / d\<close> (\<open>n, d > 0\<close>) rounded to the nearest binary64 value, ties to even,
  as ECMA-262 prescribes for a numeric literal.
\<close>

definition floor_log2 :: "nat \<Rightarrow> nat \<Rightarrow> int" where
  "floor_log2 n d =
     (let k = int (bit_length n) - int (bit_length d) in
      if (if 0 \<le> k then d * 2 ^ nat k \<le> n else d \<le> n * 2 ^ nat (- k)) then k else k - 1)"

definition round_half_even :: "nat \<Rightarrow> nat \<Rightarrow> nat" where
  "round_half_even n d =
     (let q = n div d; r = n mod d in
      if d < 2 * r \<or> (d = 2 * r \<and> odd q) then q + 1 else q)"

definition round_ratio :: "bool \<Rightarrow> nat \<Rightarrow> nat \<Rightarrow> jsnum" where
  "round_ratio neg n d =
     (if n = 0 then Fin neg 0 (- 1074) else
      let p = max (floor_log2 n d - 52) (- 1074);
          m = (if 0 \<le> p then round_half_even n (d * 2 ^ nat p)
               else round_half_even (n * 2 ^ nat (- p)) d);
          (m', p') = (if m = 2 ^ 53 then (2 ^ 52, p + 1) else (m, p))
      in if 971 < p' then Inf neg else Fin neg m' p')"

text \<open>The decimal \<open>d * 10\<^bsup>e\<^esup>\<close> as a Number.\<close>

definition round_decimal :: "bool \<Rightarrow> nat \<Rightarrow> int \<Rightarrow> jsnum" where
  "round_decimal neg d e =
     (if 0 \<le> e then round_ratio neg (d * 10 ^ nat e) 1 else round_ratio neg d (10 ^ nat (- e)))"

text \<open>Decimal digits of a natural number, most significant first; \<open>0\<close> is \<open>"0"\<close>.\<close>

fun digits_rev :: "nat \<Rightarrow> jstring" where
  "digits_rev n = (if n < 10 then [0x30 + of_nat n] else (0x30 + of_nat (n mod 10)) # digits_rev (n div 10))"

declare digits_rev.simps [simp del]

definition digits10 :: "nat \<Rightarrow> jstring" where
  "digits10 n = rev (digits_rev n)"

text \<open>
  \<open>Number::toString\<close> (ECMA-262, radix 10). For a finite non-zero value \<open>v = n / d\<close> it
  takes the least \<open>k\<close> with a \<open>k\<close>-digit \<open>s\<close> and an exponent \<open>n\<^sub>1\<^sub>0\<close> such that
  \<open>s * 10\<^bsup>n\<^sub>1\<^sub>0 - k\<^esup>\<close> reads back as \<open>v\<close>, the \<open>s\<close> closest to \<open>v\<close>, and lays the digits
  out by the five cases of the standard.
\<close>

definition decimal_point :: "nat \<Rightarrow> nat \<Rightarrow> int" where
  \<comment> \<open>the \<open>n\<^sub>1\<^sub>0\<close> with \<open>10\<^bsup>n\<^sub>1\<^sub>0 - 1\<^esup> \<le> n / d < 10\<^bsup>n\<^sub>1\<^sub>0\<^esup>\<close>\<close>
  "decimal_point n d =
     (if d \<le> n then int (length (digits10 (n div d)))
      else - int (length (takeWhile (\<lambda>j. n * 10 ^ (j + 1) < d) [0 ..< 400])))"

definition shortest_at :: "jsnum \<Rightarrow> nat \<Rightarrow> nat \<Rightarrow> int \<Rightarrow> nat \<Rightarrow> (nat \<times> int) option" where
  \<comment> \<open>the \<open>k\<close>-digit candidate below and the one above \<open>n / d\<close>, if one reads back as \<open>v\<close>\<close>
  "shortest_at v n d n10 k =
     (let e = n10 - int k;
          (sn, sd) = (if 0 \<le> e then (n, d * 10 ^ nat e) else (n * 10 ^ nat (- e), d));
          lo = sn div sd; hi = lo + 1; r = sn mod sd;
          ok_lo = (round_decimal False lo e = v);
          ok_hi = (round_decimal False hi e = v);
          pick = (if ok_lo \<and> ok_hi
                  then (if 2 * r < sd \<or> (2 * r = sd \<and> even lo) then Some lo else Some hi)
                  else if ok_lo then Some lo else if ok_hi then Some hi else None)
      in case pick of None \<Rightarrow> None
         | Some s \<Rightarrow> if s = 10 ^ k then Some (10 ^ (k - 1), n10 + 1) else Some (s, n10))"

fun shortest_from :: "jsnum \<Rightarrow> nat \<Rightarrow> nat \<Rightarrow> int \<Rightarrow> nat list \<Rightarrow> (nat \<times> int)" where
  "shortest_from v n d n10 [] = (0, 0)"
| "shortest_from v n d n10 (k # ks) =
     (case shortest_at v n d n10 k of Some r \<Rightarrow> r | None \<Rightarrow> shortest_from v n d n10 ks)"

definition layout :: "jstring \<Rightarrow> int \<Rightarrow> jstring" where
  "layout ds n10 =
     (let k = int (length ds) in
      if k \<le> n10 \<and> n10 \<le> 21 then ds @ replicate (nat (n10 - k)) 0x30
      else if 0 < n10 \<and> n10 \<le> 21 then take (nat n10) ds @ js ''.'' @ drop (nat n10) ds
      else if - 6 < n10 \<and> n10 \<le> 0 then js ''0.'' @ replicate (nat (- n10)) 0x30 @ ds
      else
        (let ex = n10 - 1;
             tail = js ''e'' @ (if 0 \<le> ex then js ''+'' else js ''-'') @ digits10 (nat \<bar>ex\<bar>)
         in if k = 1 then ds @ tail else take 1 ds @ js ''.'' @ drop 1 ds @ tail))"

fun Number_toString :: "jsnum \<Rightarrow> jstring" where
  "Number_toString (Inf neg) = (if neg then js ''-Infinity'' else js ''Infinity'')"
| "Number_toString (Fin neg m e) =
     (if m = 0 then js ''0'' else
      let (n, d) = (if 0 \<le> e then (m * 2 ^ nat e, 1) else (m, 2 ^ nat (- e)));
          n10 = decimal_point n d;
          (s, n10') = shortest_from (round_ratio False n d) n d n10 [1 ..< 18]
      in (if neg then js ''-'' else []) @ layout (digits10 s) n10')"

section \<open>JavaScript values\<close>

text \<open>
  The values the handler meets: what \<open>JSON.parse\<close> and the body parser build (null,
  booleans, numbers, strings, arrays, plain objects), and \<open>undefined\<close>, the result of
  reading a property that is not there. An object is its list of own properties; a key
  is looked up with \<open>map_of\<close>, and the parser below keeps the keys of a list distinct.
\<close>

datatype jsval =
    Undefined
  | Null
  | Bool bool
  | Num jsnum
  | Str jstring
  | Arr "jsval list"
  | Obj "(jstring \<times> jsval) list"

text \<open>What a \<open>throw\<close> carries. Line 145 catches all of them alike.\<close>

datatype exn = TypeError | SyntaxError | Error string | AxiosError

text \<open>ToBoolean: \<open>!x\<close>, \<open>x || y\<close>, \<open>x && y\<close>, \<open>x ? y : z\<close>.\<close>

fun truthy :: "jsval \<Rightarrow> bool" where
  "truthy Undefined = False"
| "truthy Null = False"
| "truthy (Bool b) = b"
| "truthy (Num n) = num_truthy n"
| "truthy (Str s) = (s \<noteq> [])"
| "truthy (Arr xs) = True"
| "truthy (Obj kvs) = True"

text \<open>
  \<open>x.name\<close> for the property names of \<open>server.js\<close>: \<open>text\<close>, \<open>language\<close>,
  \<open>choices\<close>, \<open>message\<close>, \<open>content\<close>, \<open>summary\<close>, \<open>bullets\<close>, \<open>rating\<close>, \<open>type\<close>.
  None of them is an index, \<open>length\<close> or a member of a built-in prototype, so only a
  plain object can have one; reading from \<open>null\<close> or \<open>undefined\<close> throws a TypeError.
\<close>

fun get_prop :: "jsval \<Rightarrow> string \<Rightarrow> exn + jsval" where
  "get_prop Undefined k = Inl TypeError"
| "get_prop Null k = Inl TypeError"
| "get_prop (Obj kvs) k = Inr (case map_of kvs (js k) of Some v \<Rightarrow> v | None \<Rightarrow> Undefined)"
| "get_prop v k = Inr Undefined"

text \<open>\<open>x?.name\<close>: \<open>undefined\<close> when \<open>x\<close> is \<open>null\<close> or \<open>undefined\<close>, else \<open>x.name\<close>.\<close>

fun opt_prop :: "jsval \<Rightarrow> string \<Rightarrow> jsval" where
  "opt_prop (Obj kvs) k = (case map_of kvs (js k) of Some v \<Rightarrow> v | None \<Rightarrow> Undefined)"
| "opt_prop v k = Undefined"

text \<open>
  \<open>x?.[0]\<close>: the first element of an array, the first code unit of a string (as a
  string), the property \<open>"0"\<close> of an object, and \<open>undefined\<close> otherwise.
\<close>

fun opt_index0 :: "jsval \<Rightarrow> jsval" where
  "opt_index0 (Arr (x # xs)) = x"
| "opt_index0 (Str (c # cs)) = Str [c]"
| "opt_index0 (Obj kvs) = (case map_of kvs (js ''0'') of Some v \<Rightarrow> v | None \<Rightarrow> Undefined)"
| "opt_index0 v = Undefined"

text \<open>
  \<open>String(x)\<close>, that is ToString. An array is joined with commas, \<open>null\<close> and
  \<open>undefined\<close> elements giving the empty string. A plain object gives
  \<open>"[object Object]"\<close> through \<open>Object.prototype.toString\<close>, unless it has an own
  property \<open>toString\<close>: a parsed value is never callable, \<open>valueOf\<close> (own and not
  callable, or inherited and returning the object) yields no primitive either, and
  OrdinaryToPrimitive throws a TypeError.
\<close>

fun ToString :: "jsval \<Rightarrow> exn + jstring"
  and join :: "jsval list \<Rightarrow> exn + jstring" where
  "ToString Undefined = Inr (js ''undefined'')"
| "ToString Null = Inr (js ''null'')"
| "ToString (Bool b) = Inr (if b then js ''true'' else js ''false'')"
| "ToString (Num n) = Inr (Number_toString n)"
| "ToString (Str s) = Inr s"
| "ToString (Arr xs) = join xs"
| "ToString (Obj kvs) =
     (if js ''toString'' \<in> fst ` set kvs then Inl TypeError else Inr (js ''[object Object]''))"
| "join [] = Inr []"
| "join (x # xs) =
     (case (if x = Null \<or> x = Undefined then Inr [] else ToString x) of
        Inl e \<Rightarrow> Inl e
      | Inr s \<Rightarrow>
          (if xs = [] then Inr s
           else case join xs of Inl e \<Rightarrow> Inl e | Inr t \<Rightarrow> Inr (s @ js '','' @ t)))"

text \<open>
  \<open>toLowerCase\<close> on the code units up to U+00FF: \<open>A\<close>..\<open>Z\<close> and the capital
  letters of Latin-1 (U+00C0..U+00DE without the multiplication sign) move up by 32.
  Code units above U+00FF are left as they are: the Unicode case tables are not part of
  this development, and no character above U+00FF lower-cases to a string of the
  letters of \<open>pro\<close> or \<open>warning\<close>, the only strings the result is compared with.
\<close>

definition lower_unit :: "16 word \<Rightarrow> 16 word" where
  "lower_unit c =
     (if (0x41 \<le> c \<and> c \<le> 0x5A) \<or> (0xC0 \<le> c \<and> c \<le> 0xDE \<and> c \<noteq> 0xD7) then c + 0x20 else c)"

definition toLowerCase :: "jstring \<Rightarrow> jstring" where
  "toLowerCase s = map lower_unit s"

section \<open>JSON.parse\<close>

text \<open>
  The grammar of ECMA-404 in two passes: the text is cut into tokens, and the tokens
  are read by a machine with a stack of open arrays and objects. Both passes recurse on
  their input alone. \<open>None\<close> is the SyntaxError of \<open>JSON.parse\<close>.
\<close>

datatype token = LBrace | RBrace | LBracket | RBracket | Comma | Colon | Value jsval

definition is_digit :: "16 word \<Rightarrow> bool" where
  "is_digit c \<longleftrightarrow> 0x30 \<le> c \<and> c \<le> 0x39"

definition digit_value :: "16 word \<Rightarrow> nat" where
  "digit_value c = unat c - 0x30"

definition nat_of_digits :: "jstring \<Rightarrow> nat" where
  "nat_of_digits ds = foldl (\<lambda>a c. 10 * a + digit_value c) 0 ds"

definition hex_value :: "16 word \<Rightarrow> nat option" where
  "hex_value c =
     (if 0x30 \<le> c \<and> c \<le> 0x39 then Some (unat c - 0x30)
      else if 0x41 \<le> c \<and> c \<le> 0x46 then Some (unat c - 0x41 + 10)
      else if 0x61 \<le> c \<and> c \<le> 0x66 then Some (unat c - 0x61 + 10)
      else None)"

definition hex4 :: "16 word \<Rightarrow> 16 word \<Rightarrow> 16 word \<Rightarrow> 16 word \<Rightarrow> 16 word option" where
  "hex4 a b c d =
     (case (hex_value a, hex_value b, hex_value c, hex_value d) of
        (Some w, Some x, Some y, Some z) \<Rightarrow> Some (of_nat (((w * 16 + x) * 16 + y) * 16 + z))
      | _ \<Rightarrow> None)"

definition simple_escape :: "16 word \<Rightarrow> 16 word option" where
  "simple_escape c =
     (if c = 0x22 \<or> c = 0x5C \<or> c = 0x2F then Some c
      else if c = 0x62 then Some 0x08
      else if c = 0x66 then Some 0x0C
      else if c = 0x6E then Some 0x0A
      else if c = 0x72 then Some 0x0D
      else if c = 0x74 then Some 0x09
      else None)"

text \<open>
  An escape sequence after its backslash: the code unit it stands for and what follows.
\<close>

definition unescape :: "jstring \<Rightarrow> (16 word \<times> jstring) option" where
  "unescape s =
     (case s of
        [] \<Rightarrow> None
      | e # cs \<Rightarrow>
          if e = 0x75 then
            (case cs of
               h1 # h2 # h3 # h4 # r \<Rightarrow>
                 (case hex4 h1 h2 h3 h4 of None \<Rightarrow> None | Some u \<Rightarrow> Some (u, r))
             | _ \<Rightarrow> None)
          else (case simple_escape e of None \<Rightarrow> None | Some x \<Rightarrow> Some (x, cs)))"

lemma unescape_length:
  "unescape s = Some (x, r) \<Longrightarrow> length r < length s"
  by (auto simp: unescape_def split: list.splits if_splits option.splits)

text \<open>
  The rest of a string after its opening quote: the characters up to the closing quote
  (collected in reverse in \<open>acc\<close>) and what follows it. A control character below
  U+0020 may not stand in a string.
\<close>

function lex_string :: "jstring \<Rightarrow> jstring \<Rightarrow> (jstring \<times> jstring) option" where
  "lex_string acc [] = None"
| "lex_string acc (c # cs) =
     (if c = 0x22 then Some (rev acc, cs)
      else if c = 0x5C then
        (case unescape cs of None \<Rightarrow> None | Some (x, r) \<Rightarrow> lex_string (x # acc) r)
      else if c < 0x20 then None
      else lex_string (c # acc) cs)"
  by pat_completeness auto
termination
  by (relation "measure (\<lambda>(acc, s). length s)") (auto dest: unescape_length)

lemma lex_string_length:
  "lex_string acc s = Some (r, rest) \<Longrightarrow> length rest < length s"
proof (induction acc s rule: lex_string.induct)
  case (1 acc)
  then show ?case by simp
next
  case (2 acc c cs)
  show ?case
  proof (cases "c = 0x22")
    case True
    with 2 show ?thesis by simp
  next
    case nq: False
    show ?thesis
    proof (cases "c = 0x5C")
      case True
      with nq 2 show ?thesis
        by (fastforce split: option.splits dest: unescape_length)
    next
      case False
      with nq 2 show ?thesis
        by (auto split: if_splits)
    qed
  qed
qed

text \<open>
  A number: \<open>-? (0 | [1-9][0-9]*) (\. [0-9]+)? ([eE] [+-]? [0-9]+)?\<close>, read part by
  part, each part returning what it read and the rest of the text.
\<close>

definition opt_minus :: "jstring \<Rightarrow> bool \<times> jstring" where
  "opt_minus s = (case s of c # cs \<Rightarrow> if c = 0x2D then (True, cs) else (False, s) | [] \<Rightarrow> (False, s))"

definition int_part :: "jstring \<Rightarrow> (jstring \<times> jstring) option" where
  "int_part s =
     (case s of
        [] \<Rightarrow> None
      | c # cs \<Rightarrow>
          if c = 0x30 then Some ([c], cs)
          else if is_digit c then Some (takeWhile is_digit s, dropWhile is_digit s)
          else None)"

definition frac_part :: "jstring \<Rightarrow> (jstring \<times> jstring) option" where
  "frac_part s =
     (case s of
        [] \<Rightarrow> Some ([], s)
      | c # cs \<Rightarrow>
          if c = 0x2E then
            (if takeWhile is_digit cs = [] then None
             else Some (takeWhile is_digit cs, dropWhile is_digit cs))
          else Some ([], s))"

definition exp_sign :: "jstring \<Rightarrow> bool \<times> jstring" where
  "exp_sign s =
     (case s of
        [] \<Rightarrow> (False, s)
      | c # cs \<Rightarrow> if c = 0x2D then (True, cs) else if c = 0x2B then (False, cs) else (False, s))"

definition exp_part :: "jstring \<Rightarrow> (int \<times> jstring) option" where
  "exp_part s =
     (case s of
        [] \<Rightarrow> Some (0, s)
      | c # cs \<Rightarrow>
          if c = 0x65 \<or> c = 0x45 then
            (case exp_sign cs of
               (neg, ds) \<Rightarrow>
                 if takeWhile is_digit ds = [] then None
                 else Some ((if neg then - 1 else 1) * int (nat_of_digits (takeWhile is_digit ds)),
                            dropWhile is_digit ds))
          else Some (0, s))"

definition lex_number :: "jstring \<Rightarrow> (jsnum \<times> jstring) option" where
  "lex_number s =
     (case opt_minus s of
        (neg, s1) \<Rightarrow>
          (case int_part s1 of
             None \<Rightarrow> None
           | Some (ip, s2) \<Rightarrow>
               (case frac_part s2 of
                  None \<Rightarrow> None
                | Some (fp, s3) \<Rightarrow>
                    (case exp_part s3 of
                       None \<Rightarrow> None
                     | Some (ex, s4) \<Rightarrow>
                         Some (round_decimal neg (nat_of_digits (ip @ fp)) (ex - int (length fp)),
                               s4)))))"

definition is_json_ws :: "16 word \<Rightarrow> bool" where
  "is_json_ws c \<longleftrightarrow> c = 0x20 \<or> c = 0x09 \<or> c = 0x0A \<or> c = 0x0D"

definition starts_with :: "jstring \<Rightarrow> jstring \<Rightarrow> bool" where
  "starts_with p s \<longleftrightarrow> take (length p) s = p"

lemma opt_minus_length:
  "opt_minus s = (neg, r) \<Longrightarrow> length r \<le> length s"
  by (auto simp: opt_minus_def split: list.splits if_splits)

lemma int_part_length:
  "int_part s = Some (ds, r) \<Longrightarrow> length r < length s"
  by (auto simp: int_part_def less_Suc_eq_le length_dropWhile_le split: list.splits if_splits)

lemma frac_part_length:
  "frac_part s = Some (ds, r) \<Longrightarrow> length r \<le> length s"
  by (auto simp: frac_part_def length_dropWhile_le le_SucI split: list.splits if_splits)

lemma exp_sign_length:
  "exp_sign s = (neg, r) \<Longrightarrow> length r \<le> length s"
  by (auto simp: exp_sign_def split: list.splits if_splits)

lemma exp_part_length:
  "exp_part s = Some (ex, r) \<Longrightarrow> length r \<le> length s"
proof (cases s)
  case Nil
  then show "exp_part s = Some (ex, r) \<Longrightarrow> length r \<le> length s"
    by (simp add: exp_part_def)
next
  case (Cons c cs)
  assume a: "exp_part s = Some (ex, r)"
  show "length r \<le> length s"
  proof (cases "c = 0x65 \<or> c = 0x45")
    case False
    with a Cons show ?thesis by (auto simp: exp_part_def)
  next
    case True
    obtain neg ds where sg: "exp_sign cs = (neg, ds)" by (cases "exp_sign cs")
    with a Cons True have "r = dropWhile is_digit ds"
      by (auto simp: exp_part_def split: if_splits)
    then have "length r \<le> length ds" by (simp add: length_dropWhile_le)
    also have "\<dots> \<le> length cs" using sg by (rule exp_sign_length)
    finally show ?thesis using Cons by simp
  qed
qed

lemma lex_number_length:
  "lex_number s = Some (n, rest) \<Longrightarrow> length rest < length s"
  unfolding lex_number_def
  by (fastforce split: prod.splits option.splits
      dest: opt_minus_length int_part_length frac_part_length exp_part_length)

function lex :: "jstring \<Rightarrow> token list option" where
  "lex [] = Some []"
| "lex (c # cs) =
     (if is_json_ws c then lex cs
      else if c = 0x7B then (case lex cs of None \<Rightarrow> None | Some ts \<Rightarrow> Some (LBrace # ts))
      else if c = 0x7D then (case lex cs of None \<Rightarrow> None | Some ts \<Rightarrow> Some (RBrace # ts))
      else if c = 0x5B then (case lex cs of None \<Rightarrow> None | Some ts \<Rightarrow> Some (LBracket # ts))
      else if c = 0x5D then (case lex cs of None \<Rightarrow> None | Some ts \<Rightarrow> Some (RBracket # ts))
      else if c = 0x2C then (case lex cs of None \<Rightarrow> None | Some ts \<Rightarrow> Some (Comma # ts))
      else if c = 0x3A then (case lex cs of None \<Rightarrow> None | Some ts \<Rightarrow> Some (Colon # ts))
      else if c = 0x22 then
        (case lex_string [] cs of
           None \<Rightarrow> None
         | Some (s, rest) \<Rightarrow>
             (case lex rest of None \<Rightarrow> None | Some ts \<Rightarrow> Some (Value (Str s) # ts)))
      else if c = 0x2D \<or> is_digit c then
        (case lex_number (c # cs) of
           None \<Rightarrow> None
         | Some (n, rest) \<Rightarrow>
             (case lex rest of None \<Rightarrow> None | Some ts \<Rightarrow> Some (Value (Num n) # ts)))
      else if starts_with (js ''true'') (c # cs) then
        (case lex (drop 3 cs) of None \<Rightarrow> None | Some ts \<Rightarrow> Some (Value (Bool True) # ts))
      else if starts_with (js ''false'') (c # cs) then
        (case lex (drop 4 cs) of None \<Rightarrow> None | Some ts \<Rightarrow> Some (Value (Bool False) # ts))
      else if starts_with (js ''null'') (c # cs) then
        (case lex (drop 3 cs) of None \<Rightarrow> None | Some ts \<Rightarrow> Some (Value Null # ts))
      else None)"
  by pat_completeness auto
termination
proof (relation "measure length")
  show "wf (measure length)" by simp
next
  fix c cs x2 x y
  assume "lex_string [] cs = Some x2" "(x, y) = x2"
  then have "length y < length cs" by (auto dest: lex_string_length)
  then show "(y, c # cs) \<in> measure length" by simp
next
  fix c cs x2 x y
  assume "lex_number (c # cs) = Some x2" "(x, y) = x2"
  then have "length y < length (c # cs)" by (auto dest: lex_number_length)
  then show "(y, c # cs) \<in> measure length" by simp
qed simp_all

text \<open>
  The token machine. A frame of the stack is an open array with the elements read so
  far, or an open object with its members so far and the key whose value is awaited.
  A key that occurs again replaces the value of its first occurrence, as the repeated
  definition of a property does.
\<close>

datatype frame = InArr "jsval list" | InObj "(jstring \<times> jsval) list" jstring

datatype pstate =
    WantValue "frame list"
  | ArrOpen "frame list"
  | ObjOpen "frame list"
  | WantKey "(jstring \<times> jsval) list" "frame list"
  | WantColon "(jstring \<times> jsval) list" jstring "frame list"
  | ArrNext "jsval list" "frame list"
  | ObjNext "(jstring \<times> jsval) list" "frame list"
  | Done jsval
  | Stuck

fun put :: "jstring \<Rightarrow> jsval \<Rightarrow> (jstring \<times> jsval) list \<Rightarrow> (jstring \<times> jsval) list" where
  "put k v [] = [(k, v)]"
| "put k v ((k', v') # ms) = (if k' = k then (k, v) # ms else (k', v') # put k v ms)"

fun reduce :: "jsval \<Rightarrow> frame list \<Rightarrow> pstate" where
  "reduce v [] = Done v"
| "reduce v (InArr xs # st) = ArrNext (xs @ [v]) st"
| "reduce v (InObj ms k # st) = ObjNext (put k v ms) st"

fun value_start :: "frame list \<Rightarrow> token \<Rightarrow> pstate" where
  "value_start st (Value v) = reduce v st"
| "value_start st LBracket = ArrOpen st"
| "value_start st LBrace = ObjOpen st"
| "value_start st t = Stuck"

fun step :: "pstate \<Rightarrow> token \<Rightarrow> pstate" where
  "step (WantValue st) t = value_start st t"
| "step (ArrOpen st) t = (if t = RBracket then reduce (Arr []) st else value_start (InArr [] # st) t)"
| "step (ObjOpen st) t =
     (case t of RBrace \<Rightarrow> reduce (Obj []) st | Value (Str k) \<Rightarrow> WantColon [] k st | _ \<Rightarrow> Stuck)"
| "step (WantKey ms st) t = (case t of Value (Str k) \<Rightarrow> WantColon ms k st | _ \<Rightarrow> Stuck)"
| "step (WantColon ms k st) t = (if t = Colon then WantValue (InObj ms k # st) else Stuck)"
| "step (ArrNext xs st) t =
     (case t of Comma \<Rightarrow> WantValue (InArr xs # st) | RBracket \<Rightarrow> reduce (Arr xs) st | _ \<Rightarrow> Stuck)"
| "step (ObjNext ms st) t =
     (case t of Comma \<Rightarrow> WantKey ms st | RBrace \<Rightarrow> reduce (Obj ms) st | _ \<Rightarrow> Stuck)"
| "step (Done v) t = Stuck"
| "step Stuck t = Stuck"

definition JSON_parse :: "jstring \<Rightarrow> jsval option" where
  "JSON_parse s =
     (case lex s of
        None \<Rightarrow> None
      | Some ts \<Rightarrow> (case foldl step (WantValue []) ts of Done v \<Rightarrow> Some v | _ \<Rightarrow> None))"

section \<open>The handler of POST /summarize\<close>

text \<open>
  \<open>textResp.match(/\{[\s\S]*\}/)\<close>, as the regular expression engine runs it: the
  start positions are tried from the left; at an opening brace the star takes the whole
  rest and gives characters back until a closing brace is the last one taken.
  \<open>upto_last_close s\<close> is the longest prefix of \<open>s\<close> that ends in a closing brace.
\<close>

fun upto_last_close :: "jstring \<Rightarrow> jstring option" where
  "upto_last_close [] = None"
| "upto_last_close (c # cs) =
     (case upto_last_close cs of
        Some p \<Rightarrow> Some (c # p)
      | None \<Rightarrow> if c = 0x7D then Some [c] else None)"

fun match_braces :: "jstring \<Rightarrow> jstring option" where
  "match_braces [] = None"
| "match_braces (c # cs) =
     (if c = 0x7B then
        (case upto_last_close cs of Some p \<Rightarrow> Some (c # p) | None \<Rightarrow> match_braces cs)
      else match_braces cs)"

record response =
  status :: nat
  body :: jsval

text \<open>\<open>res.status(code).json({ error: msg })\<close>\<close>

definition json_error :: "nat \<Rightarrow> string \<Rightarrow> response" where
  "json_error code msg = \<lparr>status = code, body = Obj [(js ''error'', Str (js msg))]\<rparr>"

fun typeof :: "jsval \<Rightarrow> string" where
  "typeof Undefined = ''undefined''"
| "typeof Null = ''object''"
| "typeof (Bool b) = ''boolean''"
| "typeof (Num n) = ''number''"
| "typeof (Str s) = ''string''"
| "typeof (Arr xs) = ''object''"
| "typeof (Obj kvs) = ''object''"

text \<open>Sequencing inside the \<open>try\<close> block: a throw leaves it at once.\<close>

definition and_then :: "exn + 'a \<Rightarrow> ('a \<Rightarrow> exn + 'b) \<Rightarrow> exn + 'b" where
  "and_then m f = (case m of Inl e \<Rightarrow> Inl e | Inr x \<Rightarrow> f x)"

text \<open>\<open>b && b.name\<close>\<close>

definition and_prop :: "jsval \<Rightarrow> string \<Rightarrow> exn + jsval" where
  "and_prop b k = (if truthy b then get_prop b k else Inr b)"

text \<open>
  Lines 130 to 134, the function mapped over \<open>bullets\<close>:
  \<^verbatim>\<open>const t = (b && b.type) ? String(b.type).toLowerCase() : "con";
  const txt = b && b.text ? String(b.text) : "";
  return { type: (t === "pro" ? "pro" : t === "warning" ? "warning" : "con"), text: txt };\<close>
\<close>

definition cleanBullet :: "jsval \<Rightarrow> exn + jsval" where
  "cleanBullet b =
     and_then (and_prop b ''type'') (\<lambda>c1.
     and_then (if truthy c1
               then and_then (get_prop b ''type'') (\<lambda>ty.
                    and_then (ToString ty) (\<lambda>s. Inr (toLowerCase s)))
               else Inr (js ''con'')) (\<lambda>t.
     and_then (and_prop b ''text'') (\<lambda>c2.
     and_then (if truthy c2
               then and_then (get_prop b ''text'') ToString
               else Inr (js [])) (\<lambda>txt.
     Inr (Obj [(js ''type'', Str (if t = js ''pro'' then js ''pro''
                                  else if t = js ''warning'' then js ''warning''
                                  else js ''con'')),
               (js ''text'', Str txt)])))))"

text \<open>\<open>bullets.map(f)\<close> for an \<open>f\<close> that may throw: the first throw ends the map.\<close>

fun map_throwing :: "('a \<Rightarrow> exn + 'b) \<Rightarrow> 'a list \<Rightarrow> exn + 'b list" where
  "map_throwing f [] = Inr []"
| "map_throwing f (x # xs) =
     (case f x of
        Inl e \<Rightarrow> Inl e
      | Inr y \<Rightarrow> (case map_throwing f xs of Inl e \<Rightarrow> Inl e | Inr ys \<Rightarrow> Inr (y # ys)))"

text \<open>
  Lines 125 to 143: the defaults, the cleaned bullets and the answer.
  \<^verbatim>\<open>const summary = parsed.summary || "";
  const bullets = Array.isArray(parsed.bullets) ? parsed.bullets : [];
  const rating = parsed.rating || "Risky";
  ...
  res.json({ summary, bullets: cleanedBullets, rating });\<close>
  The body of the response is the value handed to \<open>res.json\<close>, before it is written
  out as text.
\<close>

definition respond :: "jsval \<Rightarrow> exn + response" where
  "respond parsed =
     and_then (get_prop parsed ''summary'') (\<lambda>s.
     and_then (get_prop parsed ''bullets'') (\<lambda>bs.
     and_then (get_prop parsed ''rating'') (\<lambda>r.
       let summary = (if truthy s then s else Str (js []));
           bullets = (case bs of Arr xs \<Rightarrow> xs | _ \<Rightarrow> []);
           rating = (if truthy r then r else Str (js ''Risky''))
       in and_then (map_throwing cleanBullet bullets) (\<lambda>cleanedBullets.
          Inr \<lparr>status = 200,
               body = Obj [(js ''summary'', summary),
                           (js ''bullets'', Arr cleanedBullets),
                           (js ''rating'', rating)]\<rparr>))))"

text \<open>
  Lines 114 to 122. \<open>JSON.parse\<close> converts its argument to a string first; in the
  \<open>catch\<close> block only a string has a method \<open>match\<close>.
  \<^verbatim>\<open>try { parsed = JSON.parse(textResp); }
  catch (parseErr) {
    const m = textResp.match(/\{[\s\S]*\}/);
    if (m) parsed = JSON.parse(m[0]);
    else throw new Error("OpenAI did not return parseable JSON.");
  }\<close>
\<close>

definition JSON_parse_throwing :: "jsval \<Rightarrow> exn + jsval" where
  "JSON_parse_throwing x =
     and_then (ToString x) (\<lambda>s. case JSON_parse s of None \<Rightarrow> Inl SyntaxError | Some v \<Rightarrow> Inr v)"

definition parse_completion :: "jsval \<Rightarrow> exn + jsval" where
  "parse_completion textResp =
     (case JSON_parse_throwing textResp of
        Inr parsed \<Rightarrow> Inr parsed
      | Inl parseErr \<Rightarrow>
          (case textResp of
             Str s \<Rightarrow>
               (case match_braces s of
                  Some m \<Rightarrow> JSON_parse_throwing (Str m)
                | None \<Rightarrow> Inl (Error ''OpenAI did not return parseable JSON.''))
           | _ \<Rightarrow> Inl TypeError))"

text \<open>
  Lines 110 and 111, \<open>aiResp\<close> being the data of the answer of the service:
  \<^verbatim>\<open>const textResp = aiResp.choices?.[0]?.message?.content;
  if (!textResp) throw new Error("No response from OpenAI");\<close>
\<close>

definition content_of :: "jsval \<Rightarrow> exn + jsval" where
  "content_of aiResp =
     and_then (get_prop aiResp ''choices'') (\<lambda>choices.
       Inr (opt_prop (opt_prop (opt_index0 choices) ''message'') ''content''))"

definition textResp_of :: "jsval \<Rightarrow> exn + jsval" where
  "textResp_of aiResp =
     and_then (content_of aiResp) (\<lambda>textResp.
       if \<not> truthy textResp then Inl (Error ''No response from OpenAI'') else Inr textResp)"

text \<open>Lines 110 to 143: the text of the answer, parsed, normalised and sent.\<close>

definition complete :: "jsval \<Rightarrow> exn + response" where
  "complete aiResp =
     and_then (textResp_of aiResp) (\<lambda>textResp.
     and_then (parse_completion textResp) respond)"

text \<open>
  The outcome of \<open>callOpenAIChat\<close>: \<open>axios.post\<close> rejects (no connection, timeout,
  status outside 2xx), or it resolves and \<open>resp.data\<close> is returned. The service is
  outside the program and its answer is an input of the model.
\<close>

datatype upstream = Rejected | Resolved jsval

text \<open>Lines 108 to 143: the call and what is made of its outcome.\<close>

definition call_and_answer :: "upstream \<Rightarrow> exn + response" where
  "call_and_answer up = (case up of Rejected \<Rightarrow> Inl AxiosError | Resolved aiResp \<Rightarrow> complete aiResp)"

text \<open>
  Lines 66 to 144, the \<open>try\<close> block, from the body of the request. The prompt of lines
  79 to 106 is built from \<open>lang\<close> and \<open>safeText\<close> and only sent; the answer of the
  handler depends on them through the service alone.
\<close>

definition summarize_try :: "jsval \<Rightarrow> upstream \<Rightarrow> exn + response" where
  "summarize_try reqbody up =
     and_then (get_prop reqbody ''text'') (\<lambda>text.
     and_then (get_prop reqbody ''language'') (\<lambda>language.
       if \<not> truthy text \<or> typeof text \<noteq> ''string''
       then Inr (json_error 400 ''Invalid payload: text required'')
       else
         (case text of
            Str t \<Rightarrow>
              (let trimmed = trim t in
               if length trimmed < 50 then Inr (json_error 400 ''Text too short'')
               else if length trimmed > 20000 then Inr (json_error 400 ''Text too long'')
               else call_and_answer up)
          | _ \<Rightarrow> Inl TypeError)))"

text \<open>Lines 145 to 148: every throw is answered with the same 500.\<close>

definition summarize :: "jsval \<Rightarrow> upstream \<Rightarrow> response" where
  "summarize reqbody up =
     (case summarize_try reqbody up of
        Inl err \<Rightarrow> json_error 500 ''Internal server error''
      | Inr res \<Rightarrow> res)"

text \<open>
  \<open>res.json(x)\<close> sends \<open>JSON.stringify(x)\<close>, and the field a client reads is a field
  of the value that text denotes. \<open>wire x\<close> is that value: an infinite number is
  written as \<open>null\<close> and the negative zero as \<open>0\<close>; an \<open>undefined\<close> element of an
  array is written as \<open>null\<close> and a property whose value is \<open>undefined\<close> is left out;
  the other values are written so that they read back as they are. Members are looked
  up by their key.
\<close>

fun wire :: "jsval \<Rightarrow> jsval" where
  "wire (Num (Inf neg)) = Null"
| "wire (Num (Fin neg m e)) = (if m = 0 then Num (Fin False 0 e) else Num (Fin neg m e))"
| "wire (Arr xs) = Arr (map (\<lambda>x. if x = Undefined then Null else wire x) xs)"
| "wire (Obj kvs) =
     Obj (map (\<lambda>kv. (fst kv, wire (snd kv))) (filter (\<lambda>kv. snd kv \<noteq> Undefined) kvs))"
| "wire v = v"

text \<open>What the client reads of an answer.\<close>

definition reply_of :: "response \<Rightarrow> jsval" where
  "reply_of res = wire (body res)"

text \<open>
  The data of a chat completion whose first choice carries the text \<open>t\<close>:
  \<open>{ choices: [ { message: { content: t } } ] }\<close>.
\<close>

definition completion_of :: "jstring \<Rightarrow> jsval" where
  "completion_of t =
     Obj [(js ''choices'', Arr [Obj [(js ''message'', Obj [(js ''content'', Str t)])]])]"

text \<open>The answer of section 8 of the specification, JSON after a line of prose.\<close>

definition recovery_example :: jstring where
  \<open>recovery_example =
     js ''Sure, here you go:\<newline>{"summary":"x","bullets":[],"rating":"Secure"}''\<close>

section \<open>The rate limiter\<close>

text \<open>
  Lines 24 to 29 configure the middleware of the package \<open>express-rate-limit\<close>:
  \<^verbatim>\<open>const limiter = rateLimit({ windowMs: 60 * 1000, max: 30,
    message: { error: "Too many requests, please try again later." } });\<close>
\<close>

definition windowMs :: nat where
  "windowMs = 60 * 1000"

definition max_hits :: nat where
  "max_hits = 30"

definition message :: jsval where
  "message = Obj [(js ''error'', Str (js ''Too many requests, please try again later.''))]"

type_synonym 'c limiter_state = "'c \<Rightarrow> (nat \<times> nat) option"

text \<open>
  Modelled from the spec: the counting of \<open>express-rate-limit\<close>, whose code is not in
  the repository. The specification (section 4.1) gives it as a window of 60 seconds for
  each client identity, at most 30 requests in a window, the 31st and later ones failing
  until the window rolls over. The state maps a client to the number of requests of its
  open window and the time (in milliseconds) at which that window ends; a request of a
  client without an open window opens one. A request over the limit is answered with
  status 429 and the configured message, the others go on to the routes.
\<close>

definition limiter :: "'c limiter_state \<Rightarrow> 'c \<Rightarrow> nat \<Rightarrow> response option \<times> 'c limiter_state" where
  "limiter st client now =
     (let (hits, resetTime) =
            (case st client of
               None \<Rightarrow> (0, now + windowMs)
             | Some (n, r) \<Rightarrow> if now < r then (n, r) else (0, now + windowMs));
          st' = st(client \<mapsto> (hits + 1, resetTime))
      in (if hits + 1 \<le> max_hits then None else Some \<lparr>status = 429, body = message\<rparr>, st'))"

text \<open>A sequence of requests, each with its client and its time, and what each one gets.\<close>

fun run_limiter :: "'c limiter_state \<Rightarrow> ('c \<times> nat) list \<Rightarrow> response option list" where
  "run_limiter st [] = []"
| "run_limiter st ((client, now) # evs) =
     (case limiter st client now of (res, st') \<Rightarrow> res # run_limiter st' evs)"

text \<open>The answers given to one client in a run.\<close>

definition answers_to :: "'c \<Rightarrow> ('c \<times> nat) list \<Rightarrow> response option list \<Rightarrow> response option list" where
  "answers_to client evs ress = map snd (filter (\<lambda>(ev, res). fst ev = client) (zip evs ress))"

text \<open>The answer to a request over the limit.\<close>

definition too_many :: response where
  "too_many = \<lparr>status = 429, body = message\<rparr>"

text \<open>The state of the limiter after a sequence of requests.\<close>

fun final_state :: "'c limiter_state \<Rightarrow> ('c \<times> nat) list \<Rightarrow> 'c limiter_state" where
  "final_state st [] = st"
| "final_state st ((client, now) # evs) = final_state (snd (limiter st client now)) evs"

section \<open>Notions of the specification\<close>

text \<open>
  The span \<open>from the first { to the last } in the text\<close> (section 4.5), in the words of
  the specification: drop what precedes the first opening brace, then what follows the
  last closing brace. Nothing is left when no closing brace comes after the first
  opening one.
\<close>

definition first_to_last_brace :: "jstring \<Rightarrow> jstring option" where
  "first_to_last_brace t =
     (let from_open = dropWhile (\<lambda>c. c \<noteq> 0x7B) t;
          span = rev (dropWhile (\<lambda>c. c \<noteq> 0x7D) (rev from_open))
      in if span = [] then None else Some span)"

text \<open>The three ratings and the three bullet types of the result (section 3).\<close>

definition ratings :: "jsval set" where
  "ratings = {Str (js ''Secure''), Str (js ''Risky''), Str (js ''Not secure'')}"

definition bullet_types :: "jstring set" where
  "bullet_types = {js ''pro'', js ''con'', js ''warning''}"

text \<open>
  \<open>the element's type, lower-cased\<close> (section 4.6): the string of the \<open>type\<close> of a
  bullet in lower case, when the bullet has a type and the type has a string.
\<close>

definition lowered_type :: "jsval \<Rightarrow> jstring option" where
  "lowered_type b =
     (if truthy b \<and> truthy (opt_prop b ''type'')
      then (case ToString (opt_prop b ''type'') of Inl e \<Rightarrow> None | Inr s \<Rightarrow> Some (toLowerCase s))
      else None)"

text \<open>The \<open>text\<close> of a bullet is absent: there is none, or it is falsy.\<close>

definition text_absent :: "jsval \<Rightarrow> bool" where
  "text_absent b \<longleftrightarrow> \<not> (truthy b \<and> truthy (opt_prop b ''text''))"

text \<open>
  The character references that \<open>escape\<close> writes, without their ampersand. An
  ampersand of a text is escaped when one of them follows it, or when the text ends
  inside one of them.
\<close>

definition entity_bodies :: "jstring list" where
  "entity_bodies =
     [js ''amp;'', js ''quot;'', js ''#x27;'', js ''lt;'', js ''gt;'', js ''#x2F;'',
      js ''#x5C;'', js ''#96;'']"

fun escaped_amps :: "jstring \<Rightarrow> bool" where
  "escaped_amps [] = True"
| "escaped_amps (c # cs) =
     ((c = 0x26 \<longrightarrow> list_ex (\<lambda>e. starts_with e cs \<or> starts_with cs e) entity_bodies)
      \<and> escaped_amps cs)"

text \<open>
  \<open>String(x)\<close> does not throw: no object with an own property \<open>toString\<close> is \<open>x\<close>
  itself or an element of the array \<open>x\<close>, at any depth of arrays.
\<close>

fun stringable :: "jsval \<Rightarrow> bool" where
  "stringable (Arr xs) = list_all stringable xs"
| "stringable (Obj kvs) = (js ''toString'' \<notin> fst ` set kvs)"
| "stringable v = True"

text \<open>
  Lines 131 and 132 convert the \<open>type\<close> and the \<open>text\<close> of a bullet only when the
  bullet and the field are truthy; a bullet is convertible when these conversions do not
  throw.
\<close>

definition bullet_convertible :: "jsval \<Rightarrow> bool" where
  "bullet_convertible b \<longleftrightarrow>
     (truthy b \<and> truthy (opt_prop b ''type'') \<longrightarrow> stringable (opt_prop b ''type''))
   \<and> (truthy b \<and> truthy (opt_prop b ''text'') \<longrightarrow> stringable (opt_prop b ''text''))"

section \<open>Auxiliary notions\<close>

text \<open>
  Every ampersand of a text is followed by a whole character reference; this is
  \<open>escaped_amps\<close> without the allowance for a text that ends inside a reference.
\<close>

fun whole_amps :: "jstring \<Rightarrow> bool" where
  "whole_amps [] = True"
| "whole_amps (c # cs) =
     ((c = 0x26 \<longrightarrow> list_ex (\<lambda>e. starts_with e cs) entity_bodies) \<and> whole_amps cs)"

text \<open>What \<open>escape\<close> makes of one code unit.\<close>

definition escape_unit :: "16 word \<Rightarrow> jstring" where
  "escape_unit c =
     (if c = 0x26 then js ''&amp;''
      else if c = 0x22 then js ''&quot;''
      else if c = 0x27 then js ''&#x27;''
      else if c = 0x3C then js ''&lt;''
      else if c = 0x3E then js ''&gt;''
      else if c = 0x2F then js ''&#x2F;''
      else if c = 0x5C then js ''&#x5C;''
      else if c = 0x60 then js ''&#96;''
      else [c])"

section \<open>Validation of the request\<close>

lemma get_prop_other:
  "get_prop v k = Inr x \<Longrightarrow> \<exists>y. get_prop v k' = Inr y"
  by (cases v) auto

lemma summarize_try_falsy:
  assumes "get_prop reqbody ''text'' = Inr text"
    and "\<not> truthy text \<or> typeof text \<noteq> ''string''"
  shows "summarize_try reqbody up = Inr (json_error 400 ''Invalid payload: text required'')"
proof -
  obtain l where "get_prop reqbody ''language'' = Inr l"
    using assms(1) get_prop_other by blast
  with assms show ?thesis
    by (simp add: summarize_try_def and_then_def)
qed

lemma summarize_try_string:
  assumes "get_prop reqbody ''text'' = Inr (Str t)" and "t \<noteq> []"
  shows "summarize_try reqbody up =
     (if length (trim t) < 50 then Inr (json_error 400 ''Text too short'')
      else if length (trim t) > 20000 then Inr (json_error 400 ''Text too long'')
      else call_and_answer up)"
proof -
  obtain l where "get_prop reqbody ''language'' = Inr l"
    using assms(1) get_prop_other by blast
  with assms show ?thesis
    by (simp add: summarize_try_def and_then_def Let_def)
qed

lemma length_trim_le: "length (trim t) \<le> length t"
proof -
  have "length (trim t) \<le> length (dropWhile is_ws t)"
    by (simp add: trim_def) (metis length_dropWhile_le length_rev)
  also have "\<dots> \<le> length t" by (rule length_dropWhile_le)
  finally show ?thesis .
qed

lemma dropWhile_none: "\<forall>c \<in> set t. \<not> P c \<Longrightarrow> dropWhile P t = t"
  by (cases t) auto

lemma trim_no_ws:
  "\<forall>c \<in> set t. \<not> is_ws c \<Longrightarrow> trim t = t"
  by (simp add: trim_def dropWhile_none)

lemma respond_status: "respond parsed = Inr res \<Longrightarrow> status res = 200"
  by (auto simp: respond_def and_then_def Let_def split: sum.splits)

lemma complete_status: "complete aiResp = Inr res \<Longrightarrow> status res = 200"
  by (auto simp: complete_def and_then_def split: sum.splits dest: respond_status)

lemma call_and_answer_status: "call_and_answer up = Inr res \<Longrightarrow> status res = 200"
  by (auto simp: call_and_answer_def split: upstream.splits dest: complete_status)

lemma status_json_error [simp]: "status (json_error c m) = c"
  by (simp add: json_error_def)

lemma body_json_error [simp]: "body (json_error c m) = Obj [(js ''error'', Str (js m))]"
  by (simp add: json_error_def)

lemma json_error_eq_iff [simp]:
  "json_error c m = json_error c' m' \<longleftrightarrow> c = c' \<and> js m = js m'"
  by (auto simp: json_error_def)

lemma error_messages_differ [simp]:
  "js ''Invalid payload: text required'' \<noteq> js ''Text too short''"
  "js ''Invalid payload: text required'' \<noteq> js ''Text too long''"
  "js ''Text too short'' \<noteq> js ''Text too long''"
  "js ''Text too long'' \<noteq> js ''Text too short''"
  by (simp_all add: js_def cu_def)

lemma summarize_400_iff:
  assumes "get_prop reqbody ''text'' = Inr (Str t)" and "t \<noteq> []"
  shows "summarize reqbody up = json_error 400 m \<longleftrightarrow>
         (length (trim t) < 50 \<and> js m = js ''Text too short'')
       \<or> (50 \<le> length (trim t) \<and> 20000 < length (trim t) \<and> js m = js ''Text too long'')"
proof (cases "length (trim t) < 50 \<or> 20000 < length (trim t)")
  case True
  then show ?thesis
    using summarize_try_string [OF assms, of up]
    by (auto simp: summarize_def)
next
  case False
  then have eq: "summarize_try reqbody up = call_and_answer up"
    using summarize_try_string [OF assms, of up] by simp
  have "summarize reqbody up \<noteq> json_error 400 m"
  proof (cases "call_and_answer up")
    case (Inl e)
    then show ?thesis by (simp add: summarize_def eq)
  next
    case (Inr res)
    then have "status res = 200" by (rule call_and_answer_status)
    then show ?thesis using Inr by (auto simp: summarize_def eq)
  qed
  with False show ?thesis by auto
qed

lemma summarize_no_text:
  "get_prop reqbody ''text'' = Inl e \<Longrightarrow> summarize reqbody up = json_error 500 ''Internal server error''"
  by (simp add: summarize_def summarize_try_def and_then_def)

text \<open>
  C9, as the code has it. The answer is status 400 with \<open>Text too short\<close> exactly when
  \<open>text\<close> is a string, not the empty one, whose trimmed length is below 50: the empty
  string is stopped before, at line 68. A trimmed length of 49 is refused with that
  error; a trimmed length of 50 passes lines 72 and 73, and the answer is what the call
  of the completion service and its treatment give.
\<close>

theorem too_short_iff_nonempty:
  "(summarize reqbody up = json_error 400 ''Text too short''
      \<longleftrightarrow> (\<exists>t. get_prop reqbody ''text'' = Inr (Str t) \<and> t \<noteq> [] \<and> length (trim t) < 50))
   \<and> (\<forall>t. get_prop reqbody ''text'' = Inr (Str t) \<and> length (trim t) = 49
          \<longrightarrow> summarize reqbody up = json_error 400 ''Text too short'')
   \<and> (\<forall>t. get_prop reqbody ''text'' = Inr (Str t) \<and> length (trim t) = 50
          \<longrightarrow> summarize_try reqbody up = call_and_answer up)"
proof -
  have main: "summarize reqbody up = json_error 400 ''Text too short''
      \<longleftrightarrow> (\<exists>t. get_prop reqbody ''text'' = Inr (Str t) \<and> t \<noteq> [] \<and> length (trim t) < 50)"
  proof (cases "get_prop reqbody ''text''")
    case (Inl e)
    then show ?thesis by (simp add: summarize_no_text)
  next
    case (Inr tx)
    show ?thesis
    proof (cases "\<exists>t. tx = Str t \<and> t \<noteq> []")
      case True
      then obtain t where t: "tx = Str t" "t \<noteq> []" by blast
      with Inr have p: "get_prop reqbody ''text'' = Inr (Str t)" by simp
      show ?thesis
        using summarize_400_iff [OF p t(2), of up "''Text too short''"] p t(2) by auto
    next
      case False
      then have "\<not> truthy tx \<or> typeof tx \<noteq> ''string''"
        by (cases tx) auto
      from summarize_try_falsy [OF Inr this, of up]
      have "summarize reqbody up = json_error 400 ''Invalid payload: text required''"
        by (simp add: summarize_def)
      moreover have "\<not> (\<exists>t. get_prop reqbody ''text'' = Inr (Str t) \<and> t \<noteq> [] \<and> length (trim t) < 50)"
        using False Inr by auto
      ultimately show ?thesis by simp
    qed
  qed
  have nonempty: "t \<noteq> []" if "0 < length (trim t)" for t
    using that by (auto simp: trim_def)
  have l49: "summarize reqbody up = json_error 400 ''Text too short''"
    if "get_prop reqbody ''text'' = Inr (Str t) \<and> length (trim t) = 49" for t
    using main that nonempty [of t] by auto
  have l50: "summarize_try reqbody up = call_and_answer up"
    if a: "get_prop reqbody ''text'' = Inr (Str t) \<and> length (trim t) = 50" for t
  proof -
    from a have "t \<noteq> []" using nonempty [of t] by simp
    from summarize_try_string [OF _ this, of reqbody up] a show ?thesis by simp
  qed
  from main l49 l50 show ?thesis by blast
qed

text \<open>
  C9 as stated fails: the empty string has trimmed length 0, below 50, and it is
  answered with \<open>Invalid payload: text required\<close>, not with \<open>Text too short\<close>.
\<close>

theorem too_short_counterexample:
  "length (trim (js [])) < 50
   \<and> summarize (Obj [(js ''text'', Str (js []))]) Rejected
       = json_error 400 ''Invalid payload: text required''
   \<and> summarize (Obj [(js ''text'', Str (js []))]) Rejected \<noteq> json_error 400 ''Text too short''"
proof -
  have p: "get_prop (Obj [(js ''text'', Str (js []))]) ''text'' = Inr (Str (js []))" by simp
  have f: "\<not> truthy (Str (js [])) \<or> typeof (Str (js [])) \<noteq> ''string''" by (simp add: js_def)
  from summarize_try_falsy [OF p f, of Rejected]
  have "summarize (Obj [(js ''text'', Str (js []))]) Rejected
       = json_error 400 ''Invalid payload: text required''"
    by (simp add: summarize_def)
  then show ?thesis by (simp add: trim_def js_def)
qed

lemma not_ws_a [simp]: "\<not> is_ws 0x61"
  by (simp add: is_ws_def)

lemma ws_space [simp]: "is_ws 0x20"
  by (simp add: is_ws_def)

lemma trim_padded:
  "\<not> is_ws c \<Longrightarrow> 0 < n \<Longrightarrow> trim (replicate i 0x20 @ replicate n c @ replicate j 0x20) = replicate n c"
  by (cases n) (auto simp: trim_def dropWhile_append3 dropWhile_append)

theorem too_short_iff_nonempty_witness:
  "summarize (Obj [(js ''text'', Str (replicate 2 0x20 @ replicate 49 0x61 @ replicate 1 0x20))]) Rejected
     = json_error 400 ''Text too short''
   \<and> summarize_try (Obj [(js ''text'', Str (replicate 2 0x20 @ replicate 50 0x61 @ replicate 1 0x20))]) Rejected
     = call_and_answer Rejected"
proof -
  let ?t49 = "replicate 2 0x20 @ replicate 49 0x61 @ replicate 1 (0x20 :: 16 word)"
  let ?t50 = "replicate 2 0x20 @ replicate 50 0x61 @ replicate 1 (0x20 :: 16 word)"
  have l49: "length (trim ?t49) = 49" using trim_padded [of "0x61" 49 2 1] by simp
  have l50: "length (trim ?t50) = 50" using trim_padded [of "0x61" 50 2 1] by simp
  have p49: "get_prop (Obj [(js ''text'', Str ?t49)]) ''text'' = Inr (Str ?t49) \<and> length (trim ?t49) = 49"
    using l49 by simp
  have p50: "get_prop (Obj [(js ''text'', Str ?t50)]) ''text'' = Inr (Str ?t50) \<and> length (trim ?t50) = 50"
    using l50 by simp
  from too_short_iff_nonempty [of "Obj [(js ''text'', Str ?t49)]" Rejected] p49
    too_short_iff_nonempty [of "Obj [(js ''text'', Str ?t50)]" Rejected] p50
  show ?thesis by blast
qed

text \<open>
  C3, as the code has it. The answer is status 400 with \<open>Text too long\<close> exactly when
  \<open>text\<close> is a string whose trimmed length exceeds 20000 (line 73 measures
  \<open>trimmed.length\<close>, not the length of the raw text). No text whose raw length is at
  most 20000 is refused as too long.
\<close>

theorem too_long_iff_trimmed:
  "(summarize reqbody up = json_error 400 ''Text too long''
      \<longleftrightarrow> (\<exists>t. get_prop reqbody ''text'' = Inr (Str t) \<and> 20000 < length (trim t)))
   \<and> (\<forall>t. get_prop reqbody ''text'' = Inr (Str t) \<and> length t \<le> 20000
          \<longrightarrow> summarize reqbody up \<noteq> json_error 400 ''Text too long'')"
proof -
  have main: "summarize reqbody up = json_error 400 ''Text too long''
      \<longleftrightarrow> (\<exists>t. get_prop reqbody ''text'' = Inr (Str t) \<and> 20000 < length (trim t))"
  proof (cases "get_prop reqbody ''text''")
    case (Inl e)
    then show ?thesis by (simp add: summarize_no_text)
  next
    case (Inr tx)
    show ?thesis
    proof (cases "\<exists>t. tx = Str t \<and> t \<noteq> []")
      case True
      then obtain t where t: "tx = Str t" "t \<noteq> []" by blast
      with Inr have p: "get_prop reqbody ''text'' = Inr (Str t)" by simp
      show ?thesis
        using summarize_400_iff [OF p t(2), of up "''Text too long''"] p by auto
    next
      case False
      then have "\<not> truthy tx \<or> typeof tx \<noteq> ''string''"
        by (cases tx) auto
      from summarize_try_falsy [OF Inr this, of up]
      have "summarize reqbody up = json_error 400 ''Invalid payload: text required''"
        by (simp add: summarize_def)
      moreover have "\<not> (\<exists>t. get_prop reqbody ''text'' = Inr (Str t) \<and> 20000 < length (trim t))"
        using False Inr by (auto simp: trim_def)
      ultimately show ?thesis by simp
    qed
  qed
  have "summarize reqbody up \<noteq> json_error 400 ''Text too long''"
    if raw: "get_prop reqbody ''text'' = Inr (Str t) \<and> length t \<le> 20000" for t
  proof
    assume "summarize reqbody up = json_error 400 ''Text too long''"
    with main obtain t' where t': "get_prop reqbody ''text'' = Inr (Str t')" "20000 < length (trim t')"
      by blast
    with raw have "t' = t" by simp
    with t' raw length_trim_le [of t] show False by simp
  qed
  with main show ?thesis by blast
qed

lemma parse_empty_object: "JSON_parse (js ''{}'') = Some (Obj [])"
  by code_simp

lemma complete_empty_object:
  "complete (completion_of (js ''{}'')) =
     Inr \<lparr>status = 200,
          body = Obj [(js ''summary'', Str (js [])), (js ''bullets'', Arr []),
                      (js ''rating'', Str (js ''Risky''))]\<rparr>"
proof -
  have ne: "js ''{}'' \<noteq> []" by (simp add: js_def)
  show ?thesis
    by (simp add: complete_def textResp_of_def content_of_def completion_of_def and_then_def
        parse_completion_def JSON_parse_throwing_def parse_empty_object respond_def Let_def ne)
qed

lemma trim_trailing_space:
  "\<not> is_ws c \<Longrightarrow> 0 < n \<Longrightarrow> trim (replicate n c @ [0x20]) = replicate n c"
  using trim_padded [of c n 0 1] by simp

text \<open>
  C3 as stated fails: a text of 20000 letters and one trailing space has raw length
  20001 and is accepted.
\<close>

theorem too_long_counterexample:
  "20000 < length (replicate 20000 (0x61 :: 16 word) @ [0x20])
   \<and> summarize (Obj [(js ''text'', Str (replicate 20000 0x61 @ [0x20]))])
        (Resolved (completion_of (js ''{}'')))
      = \<lparr>status = 200,
         body = Obj [(js ''summary'', Str (js [])), (js ''bullets'', Arr []),
                     (js ''rating'', Str (js ''Risky''))]\<rparr>"
proof -
  let ?t = "replicate 20000 (0x61 :: 16 word) @ [0x20]"
  have p: "get_prop (Obj [(js ''text'', Str ?t)]) ''text'' = Inr (Str ?t)" by simp
  have n: "?t \<noteq> []" by simp
  have l: "length (trim ?t) = 20000" by (simp add: trim_trailing_space)
  show ?thesis
    using summarize_try_string [OF p n, of "Resolved (completion_of (js ''{}''))"] l
    by (simp add: summarize_def call_and_answer_def complete_empty_object)
qed

theorem too_long_iff_trimmed_witness:
  "summarize (Obj [(js ''text'', Str (replicate 20001 0x61))]) Rejected = json_error 400 ''Text too long''
   \<and> summarize (Obj [(js ''text'', Str (replicate 20000 0x61))]) Rejected \<noteq> json_error 400 ''Text too long''"
proof -
  let ?long = "replicate 20001 (0x61 :: 16 word)"
  let ?ok = "replicate 20000 (0x61 :: 16 word)"
  have "trim ?long = ?long" by (simp add: trim_no_ws)
  then have a: "\<exists>t. get_prop (Obj [(js ''text'', Str ?long)]) ''text'' = Inr (Str t) \<and> 20000 < length (trim t)"
    by simp
  have b: "get_prop (Obj [(js ''text'', Str ?ok)]) ''text'' = Inr (Str ?ok) \<and> length ?ok \<le> 20000"
    by simp
  from too_long_iff_trimmed [of "Obj [(js ''text'', Str ?long)]" Rejected] a
    too_long_iff_trimmed [of "Obj [(js ''text'', Str ?ok)]" Rejected] b
  show ?thesis by blast
qed

section \<open>The sanitised text\<close>

lemma replace_all_Nil [simp]: "replace_all c r [] = []"
  by (simp add: replace_all_def)

lemma replace_all_Cons [simp]:
  "replace_all c r (x # xs) = (if x = c then r else [x]) @ replace_all c r xs"
  by (simp add: replace_all_def)

lemma replace_all_append [simp]:
  "replace_all c r (xs @ ys) = replace_all c r xs @ replace_all c r ys"
  by (simp add: replace_all_def)

lemma replace_all_concat_map:
  "replace_all c r (concat (map f s)) = concat (map (\<lambda>x. replace_all c r (f x)) s)"
  by (induction s) simp_all

lemma escape_chain_unit:
  "replace_all 0x60 (js ''&#96;'')
       (replace_all 0x5C (js ''&#x5C;'')
         (replace_all 0x2F (js ''&#x2F;'')
           (replace_all 0x3E (js ''&gt;'')
             (replace_all 0x3C (js ''&lt;'')
               (replace_all 0x27 (js ''&#x27;'')
                 (replace_all 0x22 (js ''&quot;'')
                   (replace_all 0x26 (js ''&amp;'') [x]))))))) = escape_unit x"
  by (simp add: escape_unit_def js_def cu_def)

lemma escape_Nil [simp]: "escape [] = []"
  by (simp add: escape_def)

lemma escape_append: "escape (xs @ ys) = escape xs @ escape ys"
  by (simp add: escape_def)

lemma escape_Cons: "escape (x # xs) = escape_unit x @ escape xs"
  using escape_append [of "[x]" xs] escape_chain_unit [of x]
  by (simp add: escape_def)

lemma escape_concat: "escape s = concat (map escape_unit s)"
  by (induction s) (simp_all add: escape_Cons)


lemma escape_unit_cases:
  "escape_unit c = [c] \<and> c \<notin> {0x26, 0x22, 0x27, 0x3C, 0x3E, 0x2F, 0x5C, 0x60}
   \<or> (\<exists>e \<in> set entity_bodies. escape_unit c = 0x26 # e)"
  by (simp add: escape_unit_def entity_bodies_def js_def cu_def)

lemma entity_bodies_plain:
  "e \<in> set entity_bodies \<Longrightarrow> x \<in> set e \<Longrightarrow> x \<noteq> 0x26 \<and> x \<noteq> 0x3C \<and> x \<noteq> 0x3E \<and> \<not> is_ws x"
  by (auto simp: entity_bodies_def js_def cu_def is_ws_def)

lemma starts_with_append [simp]: "starts_with e (e @ r)"
  by (simp add: starts_with_def)

lemma starts_with_iff: "starts_with e s \<longleftrightarrow> (\<exists>r. s = e @ r)"
  by (metis append_take_drop_id starts_with_append starts_with_def)

lemma list_ex_member: "e \<in> set es \<Longrightarrow> P e \<Longrightarrow> list_ex P es"
  by (auto simp: list_ex_iff)

lemma whole_amps_plain_append:
  "0x26 \<notin> set p \<Longrightarrow> whole_amps (p @ r) = whole_amps r"
  by (induction p) auto

lemma whole_amps_escape_unit:
  "whole_amps r \<Longrightarrow> whole_amps (escape_unit c @ r)"
  using escape_unit_cases [of c]
proof (elim disjE conjE bexE)
  assume "whole_amps r" "escape_unit c = [c]"
    "c \<notin> {0x26, 0x22, 0x27, 0x3C, 0x3E, 0x2F, 0x5C, 0x60}"
  then show ?thesis by simp
next
  fix e
  assume r: "whole_amps r" and e: "e \<in> set entity_bodies" "escape_unit c = 0x26 # e"
  have "0x26 \<notin> set e" using entity_bodies_plain [OF e(1)] by blast
  then have "whole_amps (e @ r)" using r by (simp add: whole_amps_plain_append)
  moreover have "list_ex (\<lambda>x. starts_with x (e @ r)) entity_bodies"
    by (rule list_ex_member [OF e(1)]) simp
  ultimately show ?thesis using e(2) by simp
qed

lemma whole_amps_escape: "whole_amps (escape s)"
  by (induction s) (simp_all add: escape_Cons whole_amps_escape_unit)

lemma whole_amps_dropWhile: "whole_amps s \<Longrightarrow> whole_amps (dropWhile P s)"
  by (induction s) auto

lemma collapse_ws_plain_append:
  "\<forall>x \<in> set p. \<not> is_ws x \<Longrightarrow> collapse_ws (p @ r) = p @ collapse_ws r"
  by (induction p) auto

lemma whole_amps_collapse_ws: "whole_amps s \<Longrightarrow> whole_amps (collapse_ws s)"
proof (induction s rule: collapse_ws.induct)
  case 1
  then show ?case by simp
next
  case (2 c cs)
  show ?case
  proof (cases "is_ws c")
    case True
    then have "c \<noteq> 0x26" by (auto simp: is_ws_def)
    with 2 True show ?thesis by (simp add: whole_amps_dropWhile)
  next
    case False
    have tail: "whole_amps (collapse_ws cs)" using 2 False by simp
    have "list_ex (\<lambda>e. starts_with e (collapse_ws cs)) entity_bodies" if amp: "c = 0x26"
    proof -
      from 2(3) amp obtain e where e: "e \<in> set entity_bodies" "starts_with e cs"
        by (auto simp: list_ex_iff)
      then obtain r where "cs = e @ r" by (auto simp: starts_with_iff)
      moreover have "\<forall>x \<in> set e. \<not> is_ws x" using entity_bodies_plain [OF e(1)] by blast
      ultimately have "collapse_ws cs = e @ collapse_ws r"
        by (simp add: collapse_ws_plain_append)
      then have "starts_with e (collapse_ws cs)" by simp
      with e(1) show ?thesis by (rule list_ex_member)
    qed
    with tail False show ?thesis by simp
  qed
qed

lemma escaped_amps_take: "whole_amps s \<Longrightarrow> escaped_amps (take n s)"
proof (induction s arbitrary: n)
  case Nil
  then show ?case by simp
next
  case (Cons c cs)
  show ?case
  proof (cases n)
    case 0
    then show ?thesis by simp
  next
    case (Suc m)
    have tail: "escaped_amps (take m cs)" using Cons by simp
    have "list_ex (\<lambda>e. starts_with e (take m cs) \<or> starts_with (take m cs) e) entity_bodies"
      if amp: "c = 0x26"
    proof -
      from Cons.prems amp obtain e where e: "e \<in> set entity_bodies" "starts_with e cs"
        by (auto simp: list_ex_iff)
      then obtain r where cs: "cs = e @ r" by (auto simp: starts_with_iff)
      have "starts_with e (take m cs) \<or> starts_with (take m cs) e"
      proof (cases "length e \<le> m")
        case True
        then show ?thesis by (simp add: cs starts_with_def)
      next
        case False
        then show ?thesis by (simp add: cs starts_with_def min_def)
      qed
      with e(1) show ?thesis by (rule list_ex_member)
    qed
    with tail Suc show ?thesis by simp
  qed
qed

lemma set_replace_all:
  "set (replace_all c r s) \<subseteq> (set s - {c}) \<union> set r"
  by (induction s) auto

lemma set_escape_unit: "0x3C \<notin> set (escape_unit c) \<and> 0x3E \<notin> set (escape_unit c)"
  by (simp add: escape_unit_def js_def cu_def)

lemma set_escape: "0x3C \<notin> set (escape s) \<and> 0x3E \<notin> set (escape s)"
  by (simp add: escape_concat set_escape_unit)

lemma set_collapse_ws: "set (collapse_ws s) \<subseteq> insert 0x20 (set s)"
proof (induction s rule: collapse_ws.induct)
  case 1
  then show ?case by simp
next
  case (2 c cs)
  have "set (dropWhile is_ws cs) \<subseteq> set cs" by (rule set_dropWhileD [THEN subsetI])
  with 2 show ?case by auto
qed

text \<open>
  C4, as the code has it. For every trimmed text the sanitised text has at most 20000
  code units, whatever the escaping added, since the cut of line 76 comes last; it
  contains no \<open><\<close> and no \<open>>\<close>; and each of its ampersands starts a character
  reference written by \<open>escape\<close>. Only the cut at 20000 can leave the last reference
  unfinished: when the escaped text has at most 20000 code units every reference is
  whole, and a text with an unfinished reference has exactly 20000 code units.
\<close>

theorem safeText_bounded_and_escaped:
  "length (safeText trimmed) \<le> 20000
   \<and> 0x3C \<notin> set (safeText trimmed)
   \<and> 0x3E \<notin> set (safeText trimmed)
   \<and> escaped_amps (safeText trimmed)
   \<and> (length (collapse_ws (escape trimmed)) \<le> 20000 \<longrightarrow> whole_amps (safeText trimmed))
   \<and> (\<not> whole_amps (safeText trimmed) \<longrightarrow> length (safeText trimmed) = 20000)"
proof -
  have "set (safeText trimmed) \<subseteq> insert 0x20 (set (escape trimmed))"
    unfolding safeText_def using set_collapse_ws set_take_subset by fastforce
  then have "0x3C \<notin> set (safeText trimmed) \<and> 0x3E \<notin> set (safeText trimmed)"
    using set_escape [of trimmed] by auto
  moreover have "escaped_amps (safeText trimmed)"
    unfolding safeText_def
    by (intro escaped_amps_take whole_amps_collapse_ws whole_amps_escape)
  moreover have whole: "whole_amps (collapse_ws (escape trimmed))"
    by (intro whole_amps_collapse_ws whole_amps_escape)
  then have uncut: "length (collapse_ws (escape trimmed)) \<le> 20000 \<longrightarrow> whole_amps (safeText trimmed)"
    by (simp add: safeText_def)
  moreover have "\<not> whole_amps (safeText trimmed) \<longrightarrow> length (safeText trimmed) = 20000"
  proof
    assume "\<not> whole_amps (safeText trimmed)"
    with uncut have "20000 < length (collapse_ws (escape trimmed))" by auto
    then show "length (safeText trimmed) = 20000" by (simp add: safeText_def)
  qed
  ultimately show ?thesis by (simp add: safeText_def)
qed

theorem safeText_bounded_and_escaped_witness:
  "length (safeText (js ''Tom & Jerry <3'')) \<le> 20000
   \<and> 0x3C \<notin> set (safeText (js ''Tom & Jerry <3''))
   \<and> 0x3E \<notin> set (safeText (js ''Tom & Jerry <3''))
   \<and> escaped_amps (safeText (js ''Tom & Jerry <3''))
   \<and> whole_amps (safeText (js ''Tom & Jerry <3''))"
proof -
  have short: "length (collapse_ws (escape (js ''Tom & Jerry <3''))) \<le> 20000"
    by code_simp
  from safeText_bounded_and_escaped [of "js ''Tom & Jerry <3''"] short
  show ?thesis by blast
qed

lemma concat_replicate_single: "concat (replicate n [x]) = replicate n x"
  by (induction n) simp_all

lemma length_concat_replicate: "length (concat (replicate n e)) = n * length e"
  by (induction n) simp_all

lemma collapse_ws_plain: "\<forall>x \<in> set p. \<not> is_ws x \<Longrightarrow> collapse_ws p = p"
  using collapse_ws_plain_append [of p "[]"] by simp

text \<open>
  C4 as stated fails: three letters followed by 5000 signs \<open><\<close> are a text of 5003
  code units, accepted by lines 72 and 73; the escaped text has 20003 code units and the
  cut at 20000 falls right after the ampersand of the last reference, so the sanitised
  text ends in a bare ampersand.
\<close>

theorem safeText_counterexample:
  "length (replicate 3 (0x61 :: 16 word) @ replicate 5000 0x3C) = 5003
   \<and> trim (replicate 3 0x61 @ replicate 5000 0x3C) = replicate 3 0x61 @ replicate 5000 0x3C
   \<and> safeText (replicate 3 0x61 @ replicate 5000 0x3C)
       = replicate 3 0x61 @ concat (replicate 4999 (js ''&lt;'')) @ js ''&''
   \<and> last (safeText (replicate 3 0x61 @ replicate 5000 0x3C)) = 0x26"
proof -
  let ?t = "replicate 3 (0x61 :: 16 word) @ replicate 5000 0x3C"
  let ?e = "js ''&lt;''"
  have plain: "\<forall>x \<in> set ?t. \<not> is_ws x" by (auto simp: is_ws_def)
  have tr: "trim ?t = ?t" using plain by (rule trim_no_ws)
  have eu: "escape_unit 0x61 = [0x61]" "escape_unit 0x3C = ?e"
    by (simp_all add: escape_unit_def)
  have esc: "escape ?t = replicate 3 0x61 @ concat (replicate 5000 ?e)"
    by (simp add: escape_concat eu concat_replicate_single)
  have "\<forall>x \<in> set (replicate 3 (0x61 :: 16 word) @ concat (replicate 5000 ?e)). \<not> is_ws x"
    by (auto simp: is_ws_def js_def cu_def)
  then have col: "collapse_ws (escape ?t) = replicate 3 0x61 @ concat (replicate 5000 ?e)"
    unfolding esc by (rule collapse_ws_plain)
  have split: "concat (replicate 5000 ?e) = concat (replicate 4999 ?e) @ ?e"
    using replicate_add [of 4999 1 ?e] by simp
  have len: "length (concat (replicate 4999 ?e)) = 19996"
    by (simp add: length_concat_replicate js_def)
  have "take 20000 (replicate 3 (0x61 :: 16 word) @ concat (replicate 4999 ?e) @ ?e)
          = replicate 3 0x61 @ concat (replicate 4999 ?e) @ take 1 ?e"
    using len by simp
  moreover have "take 1 ?e = js ''&''" by (simp add: js_def)
  ultimately have st: "safeText ?t = replicate 3 0x61 @ concat (replicate 4999 ?e) @ js ''&''"
    by (simp add: safeText_def col split)
  have "last (safeText ?t) = 0x26" unfolding st by (simp add: js_def cu_def)
  with tr st show ?thesis by simp
qed

section \<open>Parsing the completion\<close>

lemma parse_example: "JSON_parse recovery_example = None"
  unfolding recovery_example_def by code_simp

lemma match_example:
  \<open>match_braces recovery_example = Some (js ''{"summary":"x","bullets":[],"rating":"Secure"}'')\<close>
  unfolding recovery_example_def by code_simp

lemma parse_example_span:
  \<open>JSON_parse (js ''{"summary":"x","bullets":[],"rating":"Secure"}'')
     = Some (Obj [(js ''summary'', Str (js ''x'')), (js ''bullets'', Arr []),
                  (js ''rating'', Str (js ''Secure''))])\<close>
  by code_simp


lemma upto_last_close_span:
  "upto_last_close s =
     (if rev (dropWhile (\<lambda>c. c \<noteq> 0x7D) (rev s)) = [] then None
      else Some (rev (dropWhile (\<lambda>c. c \<noteq> 0x7D) (rev s))))"
  by (induction s) (auto simp: dropWhile_append)

lemma upto_last_close_None: "0x7D \<notin> set s \<Longrightarrow> upto_last_close s = None"
  by (induction s) auto

lemma upto_last_close_None_iff: "upto_last_close s = None \<longleftrightarrow> 0x7D \<notin> set s"
  by (induction s) (auto split: option.splits)

lemma match_braces_no_close: "0x7D \<notin> set s \<Longrightarrow> match_braces s = None"
  by (induction s) (auto simp: upto_last_close_None)

lemma match_braces_no_open: "0x7B \<notin> set s \<Longrightarrow> match_braces s = None"
  by (induction s) auto

lemma match_braces_span: "match_braces t = first_to_last_brace t"
proof (induction t)
  case Nil
  then show ?case by (simp add: first_to_last_brace_def)
next
  case (Cons c cs)
  show ?case
  proof (cases "c = 0x7B")
    case False
    with Cons show ?thesis by (simp add: first_to_last_brace_def)
  next
    case True
    show ?thesis
    proof (cases "0x7D \<in> set cs")
      case False
      then have "dropWhile (\<lambda>c. c \<noteq> 0x7D) (rev cs) = []" by auto
      with True False show ?thesis
        by (simp add: first_to_last_brace_def upto_last_close_None match_braces_no_close
            dropWhile_append)
    next
      case close: True
      then have ne: "dropWhile (\<lambda>c. c \<noteq> 0x7D) (rev cs) \<noteq> []" by auto
      with True close show ?thesis
        by (auto simp: first_to_last_brace_def upto_last_close_span dropWhile_append)
    qed
  qed
qed

lemma JSON_parse_Nil: "JSON_parse [] = None"
  by (simp add: JSON_parse_def)

lemma JSON_parse_throwing_Str:
  "JSON_parse_throwing (Str t) = (case JSON_parse t of None \<Rightarrow> Inl SyntaxError | Some v \<Rightarrow> Inr v)"
  by (simp add: JSON_parse_throwing_def and_then_def)

lemma parse_completion_Str:
  "parse_completion (Str t) =
     (case JSON_parse t of
        Some v \<Rightarrow> Inr v
      | None \<Rightarrow>
          (case match_braces t of
             None \<Rightarrow> Inl (Error ''OpenAI did not return parseable JSON.'')
           | Some m \<Rightarrow> (case JSON_parse m of None \<Rightarrow> Inl SyntaxError | Some v \<Rightarrow> Inr v)))"
  by (simp add: parse_completion_def JSON_parse_throwing_Str split: option.splits)

lemma summarize_accepted:
  assumes "get_prop reqbody ''text'' = Inr (Str x)"
    and "50 \<le> length (trim x)" and "length (trim x) \<le> 20000"
  shows "summarize reqbody up =
     (case call_and_answer up of Inl e \<Rightarrow> json_error 500 ''Internal server error'' | Inr res \<Rightarrow> res)"
proof -
  from assms(2) have "x \<noteq> []" by (auto simp: trim_def)
  from summarize_try_string [OF assms(1) this, of up] assms(2,3) show ?thesis
    by (simp add: summarize_def)
qed

lemma complete_content:
  assumes "content_of aiResp = Inr (Str t)"
  shows "complete aiResp =
     (if t = [] then Inl (Error ''No response from OpenAI'')
      else and_then (parse_completion (Str t)) respond)"
  using assms by (simp add: complete_def textResp_of_def and_then_def)

lemma respond_example:
  "respond (Obj [(js ''summary'', Str (js ''x'')), (js ''bullets'', Arr []),
                 (js ''rating'', Str (js ''Secure''))])
   = Inr \<lparr>status = 200,
          body = Obj [(js ''summary'', Str (js ''x'')), (js ''bullets'', Arr []),
                      (js ''rating'', Str (js ''Secure''))]\<rparr>"
  by (simp add: respond_def and_then_def Let_def js_def cu_def)

text \<open>
  C5. A text that parses as JSON gives that parse, at once. Only when the direct parse
  fails is the match of \<open>/\{[\s\S]*\}/\<close> tried, and that match is the span from the first
  opening brace to the last closing brace of the text; the parse of the span is the
  result, and without a span or without a parse of it the step throws. For the answer
  \<open>Sure, here you go:\<close>, a line break and the object of section 8, a valid request is
  answered with status 200 and \<open>{summary: "x", bullets: [], rating: "Secure"}\<close>.
\<close>

theorem parse_direct_then_brace_span:
  \<open>(JSON_parse t = Some v \<longrightarrow> parse_completion (Str t) = Inr v)
   \<and> (JSON_parse t = None \<longrightarrow>
        parse_completion (Str t) =
          (case first_to_last_brace t of
             None \<Rightarrow> Inl (Error ''OpenAI did not return parseable JSON.'')
           | Some m \<Rightarrow> (case JSON_parse m of None \<Rightarrow> Inl SyntaxError | Some v \<Rightarrow> Inr v)))
   \<and> match_braces t = first_to_last_brace t
   \<and> (get_prop reqbody ''text'' = Inr (Str x) \<and> 50 \<le> length (trim x) \<and> length (trim x) \<le> 20000
        \<and> content_of aiResp = Inr (Str recovery_example)
      \<longrightarrow> summarize reqbody (Resolved aiResp)
            = \<lparr>status = 200,
               body = Obj [(js ''summary'', Str (js ''x'')), (js ''bullets'', Arr []),
                           (js ''rating'', Str (js ''Secure''))]\<rparr>)\<close>
proof -
  have ne: "recovery_example \<noteq> []" by (simp add: recovery_example_def js_def)
  have "parse_completion (Str recovery_example)
          = Inr (Obj [(js ''summary'', Str (js ''x'')), (js ''bullets'', Arr []),
                      (js ''rating'', Str (js ''Secure''))])"
    by (simp add: parse_completion_Str parse_example match_example parse_example_span)
  then have "complete aiResp
          = Inr \<lparr>status = 200,
                 body = Obj [(js ''summary'', Str (js ''x'')), (js ''bullets'', Arr []),
                             (js ''rating'', Str (js ''Secure''))]\<rparr>"
    if "content_of aiResp = Inr (Str recovery_example)"
    using complete_content [OF that] ne by (simp add: and_then_def respond_example)
  then show ?thesis
    by (auto simp: parse_completion_Str match_braces_span summarize_accepted call_and_answer_def)
qed

theorem parse_direct_then_brace_span_witness:
  \<open>parse_completion (Str (js ''{}'')) = Inr (Obj [])
   \<and> parse_completion (Str recovery_example)
       = Inr (Obj [(js ''summary'', Str (js ''x'')), (js ''bullets'', Arr []),
                   (js ''rating'', Str (js ''Secure''))])
   \<and> summarize (Obj [(js ''text'', Str (replicate 50 0x61))]) (Resolved (completion_of recovery_example))
       = \<lparr>status = 200,
          body = Obj [(js ''summary'', Str (js ''x'')), (js ''bullets'', Arr []),
                      (js ''rating'', Str (js ''Secure''))]\<rparr>\<close>
proof -
  let ?body = "Obj [(js ''text'', Str (replicate 50 0x61))]"
  have span: \<open>first_to_last_brace recovery_example
      = Some (js ''{"summary":"x","bullets":[],"rating":"Secure"}'')\<close>
    using match_example by (simp add: match_braces_span)
  have req: "get_prop ?body ''text'' = Inr (Str (replicate 50 0x61))
      \<and> 50 \<le> length (trim (replicate 50 (0x61 :: 16 word)))
      \<and> length (trim (replicate 50 (0x61 :: 16 word))) \<le> 20000
      \<and> content_of (completion_of recovery_example) = Inr (Str recovery_example)"
    by (simp add: trim_no_ws content_of_def completion_of_def and_then_def)
  from parse_direct_then_brace_span [of "js ''{}''" "Obj []"] parse_empty_object
  have a: "parse_completion (Str (js ''{}'')) = Inr (Obj [])" by blast
  from parse_direct_then_brace_span [of recovery_example] parse_example span parse_example_span
  have b: "parse_completion (Str recovery_example)
       = Inr (Obj [(js ''summary'', Str (js ''x'')), (js ''bullets'', Arr []),
                   (js ''rating'', Str (js ''Secure''))])"
    by simp
  from parse_direct_then_brace_span [of _ _ ?body "replicate 50 0x61" "completion_of recovery_example"] req
  have c: "summarize ?body (Resolved (completion_of recovery_example))
       = \<lparr>status = 200,
          body = Obj [(js ''summary'', Str (js ''x'')), (js ''bullets'', Arr []),
                      (js ''rating'', Str (js ''Secure''))]\<rparr>"
    by blast
  from a b c show ?thesis by blast
qed

text \<open>
  C6. When the request has passed the validation and the text of the completion is not
  valid JSON and contains neither an opening nor a closing brace, the answer is status
  500 with exactly the body \<open>{ error: "Internal server error" }\<close>.
\<close>

theorem unparseable_completion_is_500:
  assumes "get_prop reqbody ''text'' = Inr (Str x)"
    and "50 \<le> length (trim x)" and "length (trim x) \<le> 20000"
    and "content_of aiResp = Inr (Str t)"
    and "JSON_parse t = None"
    and "0x7B \<notin> set t" and "0x7D \<notin> set t"
  shows "summarize reqbody (Resolved aiResp)
     = \<lparr>status = 500, body = Obj [(js ''error'', Str (js ''Internal server error''))]\<rparr>"
proof -
  have "parse_completion (Str t) = Inl (Error ''OpenAI did not return parseable JSON.'')"
    using assms(5,6) by (simp add: parse_completion_Str match_braces_no_open)
  then have "\<exists>e. complete aiResp = Inl e"
    using complete_content [OF assms(4)] by (simp add: and_then_def)
  then show ?thesis
    using summarize_accepted [OF assms(1-3), of "Resolved aiResp"]
    by (auto simp: call_and_answer_def json_error_def)
qed

theorem unparseable_completion_is_500_witness:
  "summarize (Obj [(js ''text'', Str (replicate 50 0x61))])
     (Resolved (completion_of (js ''I cannot summarise this text.'')))
   = \<lparr>status = 500, body = Obj [(js ''error'', Str (js ''Internal server error''))]\<rparr>"
proof -
  let ?body = "Obj [(js ''text'', Str (replicate 50 0x61))]"
  let ?t = "js ''I cannot summarise this text.''"
  have p: "get_prop ?body ''text'' = Inr (Str (replicate 50 0x61))" by simp
  have l1: "50 \<le> length (trim (replicate 50 (0x61 :: 16 word)))" by (simp add: trim_no_ws)
  have l2: "length (trim (replicate 50 (0x61 :: 16 word))) \<le> 20000" by (simp add: trim_no_ws)
  have c: "content_of (completion_of ?t) = Inr (Str ?t)"
    by (simp add: content_of_def completion_of_def and_then_def)
  have n: "JSON_parse ?t = None" by code_simp
  have o: "0x7B \<notin> set ?t" by (simp add: js_def cu_def)
  have cl: "0x7D \<notin> set ?t" by (simp add: js_def cu_def)
  from unparseable_completion_is_500 [OF p l1 l2 c n o cl] show ?thesis .
qed

section \<open>The answer\<close>

lemma get_prop_truthy: "truthy b \<Longrightarrow> get_prop b k = Inr (opt_prop b k)"
  by (cases b) auto

lemma get_prop_opt_prop: "get_prop v k = Inr x \<Longrightarrow> x = opt_prop v k"
  by (cases v) auto

lemma get_prop_defined: "v \<noteq> Null \<Longrightarrow> v \<noteq> Undefined \<Longrightarrow> get_prop v k = Inr (opt_prop v k)"
  by (cases v) auto

lemma cleanBullet_eq:
  "cleanBullet b =
     (case (if truthy b \<and> truthy (opt_prop b ''type'')
            then (case ToString (opt_prop b ''type'') of Inl e \<Rightarrow> Inl e | Inr s \<Rightarrow> Inr (toLowerCase s))
            else Inr (js ''con'')) of
        Inl e \<Rightarrow> Inl e
      | Inr t \<Rightarrow>
          (case (if truthy b \<and> truthy (opt_prop b ''text'')
                 then ToString (opt_prop b ''text'') else Inr []) of
             Inl e \<Rightarrow> Inl e
           | Inr txt \<Rightarrow>
               Inr (Obj [(js ''type'', Str (if t = js ''pro'' then js ''pro''
                                            else if t = js ''warning'' then js ''warning''
                                            else js ''con'')),
                         (js ''text'', Str txt)])))"
proof (cases "truthy b")
  case True
  then show ?thesis
    by (simp add: cleanBullet_def and_prop_def and_then_def get_prop_truthy js_def
        split: sum.splits)
next
  case False
  then show ?thesis
    by (simp add: cleanBullet_def and_prop_def and_then_def js_def)
qed

lemma cleanBullet_Inr:
  assumes "cleanBullet b = Inr c"
  shows "\<exists>tx. c = Obj [(js ''type'',
                  Str (if lowered_type b = Some (js ''pro'') then js ''pro''
                       else if lowered_type b = Some (js ''warning'') then js ''warning''
                       else js ''con'')),
                 (js ''text'', Str tx)]
           \<and> (text_absent b \<longrightarrow> tx = [])
           \<and> (\<not> text_absent b \<longrightarrow> ToString (opt_prop b ''text'') = Inr tx)"
proof -
  have con: "js ''con'' \<noteq> js ''pro''" "js ''con'' \<noteq> js ''warning''"
    by (simp_all add: js_def cu_def)
  from assms show ?thesis
    unfolding cleanBullet_eq lowered_type_def text_absent_def
    by (auto split: if_splits sum.splits simp: con)
qed

lemma map_throwing_Inr:
  "map_throwing f xs = Inr ys \<Longrightarrow> length ys = length xs \<and> (\<forall>i < length xs. f (xs ! i) = Inr (ys ! i))"
proof (induction xs arbitrary: ys)
  case Nil
  then show ?case by simp
next
  case (Cons x xs)
  then obtain y ys' where y: "f x = Inr y" and ys': "map_throwing f xs = Inr ys'" and ys: "ys = y # ys'"
    by (auto split: sum.splits)
  from Cons.IH [OF ys'] y ys show ?case
    by (auto simp: nth_Cons split: nat.splits)
qed

lemma map_throwing_total:
  "\<forall>x \<in> set xs. \<exists>y. f x = Inr y \<Longrightarrow> \<exists>ys. map_throwing f xs = Inr ys"
  by (induction xs) auto

lemma keys_differ [simp]:
  "js ''summary'' \<noteq> js ''bullets''" "js ''summary'' \<noteq> js ''rating''"
  "js ''bullets'' \<noteq> js ''rating''" "js ''bullets'' \<noteq> js ''summary''"
  "js ''rating'' \<noteq> js ''summary''" "js ''rating'' \<noteq> js ''bullets''"
  by (simp_all add: js_def cu_def)

lemma respond_Inr:
  assumes "respond parsed = Inr res"
  shows "\<exists>cleaned.
           map_throwing cleanBullet (case opt_prop parsed ''bullets'' of Arr xs \<Rightarrow> xs | _ \<Rightarrow> []) = Inr cleaned
         \<and> res = \<lparr>status = 200,
                  body = Obj [(js ''summary'', if truthy (opt_prop parsed ''summary'')
                                               then opt_prop parsed ''summary'' else Str (js [])),
                              (js ''bullets'', Arr cleaned),
                              (js ''rating'', if truthy (opt_prop parsed ''rating'')
                                              then opt_prop parsed ''rating'' else Str (js ''Risky''))]\<rparr>"
proof -
  from assms have d: "parsed \<noteq> Null" "parsed \<noteq> Undefined"
    by (auto simp: respond_def and_then_def)
  with assms show ?thesis
    by (auto simp: respond_def and_then_def Let_def get_prop_defined split: sum.splits)
qed

text \<open>
  C7. When the handler answers, the \<open>bullets\<close> of the answer are one object
  \<open>{type, text}\<close> for each element of the parsed \<open>bullets\<close> array, in order: \<open>type\<close> is
  \<open>pro\<close> or \<open>warning\<close> when the type of the element, lower-cased, is exactly that
  word, and \<open>con\<close> otherwise; \<open>text\<close> is a string, the empty one when the element has no
  text. When the parsed \<open>bullets\<close> is not an array the list is empty.
\<close>

theorem cleaned_bullets:
  assumes "respond parsed = Inr res" and "get_prop parsed ''bullets'' = Inr bs"
  shows "\<exists>out. opt_prop (body res) ''bullets'' = Arr out
     \<and> (case bs of
          Arr xs \<Rightarrow>
            length out = length xs
            \<and> (\<forall>i < length xs. \<exists>tx.
                  out ! i = Obj [(js ''type'',
                                  Str (if lowered_type (xs ! i) = Some (js ''pro'') then js ''pro''
                                       else if lowered_type (xs ! i) = Some (js ''warning'')
                                       then js ''warning'' else js ''con'')),
                                 (js ''text'', Str tx)]
                  \<and> (text_absent (xs ! i) \<longrightarrow> tx = []))
        | _ \<Rightarrow> out = [])"
proof -
  from respond_Inr [OF assms(1)] obtain cleaned where
    m: "map_throwing cleanBullet (case opt_prop parsed ''bullets'' of Arr xs \<Rightarrow> xs | _ \<Rightarrow> []) = Inr cleaned"
    and b: "opt_prop (body res) ''bullets'' = Arr cleaned"
    by auto
  have bs: "opt_prop parsed ''bullets'' = bs" using get_prop_opt_prop [OF assms(2)] by simp
  show ?thesis
  proof (cases bs)
    case (Arr xs)
    with m bs have mx: "map_throwing cleanBullet xs = Inr cleaned" by simp
    from map_throwing_Inr [OF mx]
    have len: "length cleaned = length xs"
      and each: "\<And>i. i < length xs \<Longrightarrow> cleanBullet (xs ! i) = Inr (cleaned ! i)"
      by auto
    have "\<exists>tx. cleaned ! i = Obj [(js ''type'',
                                  Str (if lowered_type (xs ! i) = Some (js ''pro'') then js ''pro''
                                       else if lowered_type (xs ! i) = Some (js ''warning'')
                                       then js ''warning'' else js ''con'')),
                                 (js ''text'', Str tx)]
                  \<and> (text_absent (xs ! i) \<longrightarrow> tx = [])" if "i < length xs" for i
      using cleanBullet_Inr [OF each [OF that]] by blast
    with len b Arr show ?thesis by simp
  next
    case Undefined with m bs b show ?thesis by simp
  next
    case Null with m bs b show ?thesis by simp
  next
    case (Bool x) with m bs b show ?thesis by simp
  next
    case (Num x) with m bs b show ?thesis by simp
  next
    case (Str x) with m bs b show ?thesis by simp
  next
    case (Obj x) with m bs b show ?thesis by simp
  qed
qed


theorem cleaned_bullets_witness:
  "\<exists>out. opt_prop (body \<lparr>status = 200,
                         body = Obj [(js ''summary'', Str (js [])),
                                     (js ''bullets'',
                                      Arr [Obj [(js ''type'', Str (js ''pro'')), (js ''text'', Str (js ''free''))],
                                           Obj [(js ''type'', Str (js ''con'')), (js ''text'', Str (js []))],
                                           Obj [(js ''type'', Str (js ''warning'')), (js ''text'', Str (js []))]]),
                                     (js ''rating'', Str (js ''Risky''))]\<rparr>) ''bullets'' = Arr out
     \<and> (case Arr [Obj [(js ''type'', Str (js ''PRO'')), (js ''text'', Str (js ''free''))],
                  Null,
                  Obj [(js ''type'', Arr [Str (js ''Warning'')])]] of
          Arr xs \<Rightarrow>
            length out = length xs
            \<and> (\<forall>i < length xs. \<exists>tx.
                  out ! i = Obj [(js ''type'',
                                  Str (if lowered_type (xs ! i) = Some (js ''pro'') then js ''pro''
                                       else if lowered_type (xs ! i) = Some (js ''warning'')
                                       then js ''warning'' else js ''con'')),
                                 (js ''text'', Str tx)]
                  \<and> (text_absent (xs ! i) \<longrightarrow> tx = []))
        | _ \<Rightarrow> out = [])"
proof -
  let ?bs = "Arr [Obj [(js ''type'', Str (js ''PRO'')), (js ''text'', Str (js ''free''))],
                  Null,
                  Obj [(js ''type'', Arr [Str (js ''Warning'')])]]"
  let ?parsed = "Obj [(js ''bullets'', ?bs)]"
  have r: "respond ?parsed
      = Inr \<lparr>status = 200,
             body = Obj [(js ''summary'', Str (js [])),
                         (js ''bullets'',
                          Arr [Obj [(js ''type'', Str (js ''pro'')), (js ''text'', Str (js ''free''))],
                               Obj [(js ''type'', Str (js ''con'')), (js ''text'', Str (js []))],
                               Obj [(js ''type'', Str (js ''warning'')), (js ''text'', Str (js []))]]),
                         (js ''rating'', Str (js ''Risky''))]\<rparr>"
    by code_simp
  have g: "get_prop ?parsed ''bullets'' = Inr ?bs" by simp
  from cleaned_bullets [OF r g] show ?thesis .
qed

lemma summarize_200:
  assumes "status (summarize reqbody up) = 200"
  shows "call_and_answer up = Inr (summarize reqbody up)"
proof (cases "get_prop reqbody ''text''")
  case (Inl e)
  with assms show ?thesis by (simp add: summarize_no_text)
next
  case (Inr tx)
  show ?thesis
  proof (cases "\<exists>t. tx = Str t \<and> t \<noteq> []")
    case False
    then have "\<not> truthy tx \<or> typeof tx \<noteq> ''string''" by (cases tx) auto
    from summarize_try_falsy [OF Inr this, of up] assms show ?thesis
      by (simp add: summarize_def)
  next
    case True
    then obtain t where t: "tx = Str t" "t \<noteq> []" by blast
    with Inr have p: "get_prop reqbody ''text'' = Inr (Str t)" by simp
    from summarize_try_string [OF p t(2), of up] assms show ?thesis
      by (auto simp: summarize_def split: if_splits sum.splits)
  qed
qed

lemma wire_eq_Str: "wire r = Str s \<longleftrightarrow> r = Str s"
proof (cases r)
  case (Num n)
  then show ?thesis by (cases n) auto
qed auto

lemma wire_eq_Undefined: "wire r = Undefined \<longleftrightarrow> r = Undefined"
proof (cases r)
  case (Num n)
  then show ?thesis by (cases n) auto
qed auto

lemma rating_of_wire:
  "r \<noteq> Undefined \<Longrightarrow>
   opt_prop (wire (Obj [(js ''summary'', s), (js ''bullets'', b), (js ''rating'', r)])) ''rating''
     = wire r"
  by simp

text \<open>
  C1, as the code has it. Every answer with status 200 carries a \<open>rating\<close>: \<open>Risky\<close>
  when the parsed rating is falsy, and otherwise the parsed rating as \<open>res.json\<close>
  writes it (line 127 has no other test). A string is written as it is; an infinite
  number, the value of \<open>1e400\<close>, is written as \<open>null\<close>. The field is therefore never
  absent, and it is one of \<open>Secure\<close>, \<open>Risky\<close>, \<open>Not secure\<close> exactly when the parsed
  rating is falsy or is itself one of the three.
\<close>

theorem rating_returned:
  assumes "status (summarize reqbody up) = 200"
  shows "\<exists>aiResp textResp parsed r.
           up = Resolved aiResp \<and> textResp_of aiResp = Inr textResp
         \<and> parse_completion textResp = Inr parsed
         \<and> get_prop parsed ''rating'' = Inr r
         \<and> opt_prop (reply_of (summarize reqbody up)) ''rating''
             = (if truthy r then wire r else Str (js ''Risky''))
         \<and> opt_prop (reply_of (summarize reqbody up)) ''rating'' \<noteq> Undefined
         \<and> (opt_prop (reply_of (summarize reqbody up)) ''rating'' \<in> ratings
              \<longleftrightarrow> \<not> truthy r \<or> r \<in> ratings)"
proof -
  let ?res = "summarize reqbody up"
  from summarize_200 [OF assms] obtain aiResp where
    up: "up = Resolved aiResp" and c: "complete aiResp = Inr ?res"
    by (auto simp: call_and_answer_def split: upstream.splits)
  from c obtain textResp parsed where
    t: "textResp_of aiResp = Inr textResp" and p: "parse_completion textResp = Inr parsed"
    and r: "respond parsed = Inr ?res"
    by (auto simp: complete_def and_then_def split: sum.splits)
  from r have d: "parsed \<noteq> Null" "parsed \<noteq> Undefined"
    by (auto simp: respond_def and_then_def)
  then have g: "get_prop parsed ''rating'' = Inr (opt_prop parsed ''rating'')"
    by (rule get_prop_defined)
  define pr where "pr = opt_prop parsed ''rating''"
  define rating where "rating = (if truthy pr then pr else Str (js ''Risky''))"
  have defined: "rating \<noteq> Undefined"
    unfolding rating_def by (cases "truthy pr") auto
  from respond_Inr [OF r] obtain s bs where
    "body ?res = Obj [(js ''summary'', s), (js ''bullets'', bs), (js ''rating'', rating)]"
    unfolding rating_def pr_def by auto
  then have "opt_prop (reply_of ?res) ''rating'' = wire rating"
    unfolding reply_of_def using rating_of_wire [OF defined] by simp
  then have out: "opt_prop (reply_of ?res) ''rating'' = (if truthy pr then wire pr else Str (js ''Risky''))"
    unfolding rating_def by simp
  have risky: "Str (js ''Risky'') \<in> ratings" by (simp add: ratings_def)
  have present: "opt_prop (reply_of ?res) ''rating'' \<noteq> Undefined"
    unfolding out using wire_eq_Undefined [of pr] by auto
  have "wire pr \<in> ratings \<longleftrightarrow> pr \<in> ratings"
    by (auto simp: ratings_def wire_eq_Str)
  then have "opt_prop (reply_of ?res) ''rating'' \<in> ratings \<longleftrightarrow> \<not> truthy pr \<or> pr \<in> ratings"
    unfolding out using risky by simp
  with up t p g out present show ?thesis unfolding pr_def by blast
qed

lemma parse_banana:
  \<open>JSON_parse (js ''{"rating":"Banana"}'') = Some (Obj [(js ''rating'', Str (js ''Banana''))])\<close>
  by code_simp

lemma content_of_completion_of: "content_of (completion_of t) = Inr (Str t)"
  by (simp add: content_of_def completion_of_def and_then_def)

lemma valid_fifty:
  "get_prop (Obj [(js ''text'', Str (replicate 50 0x61))]) ''text'' = Inr (Str (replicate 50 0x61))"
  "50 \<le> length (trim (replicate 50 (0x61 :: 16 word)))"
  "length (trim (replicate 50 (0x61 :: 16 word))) \<le> 20000"
  by (simp_all add: trim_no_ws)

lemma banana_answer:
  \<open>summarize (Obj [(js ''text'', Str (replicate 50 0x61))])
      (Resolved (completion_of (js ''{"rating":"Banana"}'')))
    = \<lparr>status = 200,
       body = Obj [(js ''summary'', Str (js [])), (js ''bullets'', Arr []),
                   (js ''rating'', Str (js ''Banana''))]\<rparr>\<close>
proof -
  have ne: \<open>js ''{"rating":"Banana"}'' \<noteq> []\<close> by (simp add: js_def)
  have pc: \<open>parse_completion (Str (js ''{"rating":"Banana"}''))
      = Inr (Obj [(js ''rating'', Str (js ''Banana''))])\<close>
    by (simp add: parse_completion_Str parse_banana)
  have rs: "respond (Obj [(js ''rating'', Str (js ''Banana''))])
      = Inr \<lparr>status = 200,
             body = Obj [(js ''summary'', Str (js [])), (js ''bullets'', Arr []),
                         (js ''rating'', Str (js ''Banana''))]\<rparr>"
    by (simp add: respond_def and_then_def Let_def js_def cu_def)
  have \<open>complete (completion_of (js ''{"rating":"Banana"}''))
      = Inr \<lparr>status = 200,
             body = Obj [(js ''summary'', Str (js [])), (js ''bullets'', Arr []),
                         (js ''rating'', Str (js ''Banana''))]\<rparr>\<close>
    using complete_content [OF content_of_completion_of] ne
    by (simp add: pc rs and_then_def)
  then show ?thesis
    using summarize_accepted [OF valid_fifty, of "Resolved (completion_of (js ''{\"rating\":\"Banana\"}''))"]
    by (simp add: call_and_answer_def)
qed

text \<open>
  C1 as stated fails: the completion \<open>{"rating":"Banana"}\<close> is answered with status 200
  and the rating \<open>Banana\<close>.
\<close>

theorem rating_counterexample:
  \<open>summarize (Obj [(js ''text'', Str (replicate 50 0x61))])
      (Resolved (completion_of (js ''{"rating":"Banana"}'')))
    = \<lparr>status = 200,
       body = Obj [(js ''summary'', Str (js [])), (js ''bullets'', Arr []),
                   (js ''rating'', Str (js ''Banana''))]\<rparr>
   \<and> Str (js ''Banana'') \<notin> ratings\<close>
proof -
  have "Str (js ''Banana'') \<notin> ratings"
    by (simp add: ratings_def js_def cu_def)
  with banana_answer show ?thesis by simp
qed

theorem rating_returned_witness:
  \<open>\<exists>aiResp textResp parsed r.
      Resolved (completion_of (js ''{"rating":"Banana"}'')) = Resolved aiResp
    \<and> textResp_of aiResp = Inr textResp
    \<and> parse_completion textResp = Inr parsed
    \<and> get_prop parsed ''rating'' = Inr r
    \<and> opt_prop (reply_of (summarize (Obj [(js ''text'', Str (replicate 50 0x61))])
                        (Resolved (completion_of (js ''{"rating":"Banana"}''))))) ''rating''
        = (if truthy r then wire r else Str (js ''Risky''))
    \<and> opt_prop (reply_of (summarize (Obj [(js ''text'', Str (replicate 50 0x61))])
                        (Resolved (completion_of (js ''{"rating":"Banana"}''))))) ''rating'' \<noteq> Undefined
    \<and> (opt_prop (reply_of (summarize (Obj [(js ''text'', Str (replicate 50 0x61))])
                        (Resolved (completion_of (js ''{"rating":"Banana"}''))))) ''rating'' \<in> ratings
         \<longleftrightarrow> \<not> truthy r \<or> r \<in> ratings)\<close>
proof -
  have \<open>status (summarize (Obj [(js ''text'', Str (replicate 50 0x61))])
                  (Resolved (completion_of (js ''{"rating":"Banana"}'')))) = 200\<close>
    using banana_answer by simp
  from rating_returned [OF this] show ?thesis .
qed

lemma infinite_rating_returned_as_null:
  "respond (Obj [(js ''rating'', Num (Inf False))])
     = Inr \<lparr>status = 200,
            body = Obj [(js ''summary'', Str (js [])), (js ''bullets'', Arr []),
                        (js ''rating'', Num (Inf False))]\<rparr>
   \<and> opt_prop (reply_of \<lparr>status = 200,
                          body = Obj [(js ''summary'', Str (js [])), (js ''bullets'', Arr []),
                                      (js ''rating'', Num (Inf False))]\<rparr>) ''rating'' = Null"
  by (simp add: respond_def and_then_def Let_def reply_of_def js_def cu_def)

section \<open>Totality of the normalisation\<close>

lemma ToString_stringable: "(\<exists>s. ToString v = Inr s) \<longleftrightarrow> stringable v"
  and join_stringable: "(\<exists>s. join xs = Inr s) \<longleftrightarrow> list_all stringable xs"
proof (induction v and xs rule: ToString_join.induct)
  case (9 x xs)
  show ?case
  proof (cases "x = Null \<or> x = Undefined")
    case True
    then have sx: "stringable x" by auto
    show ?thesis
    proof (cases "xs = []")
      case True
      with \<open>x = Null \<or> x = Undefined\<close> show ?thesis by auto
    next
      case False
      from "9.IH"(2) [of "[]"] True False
      have "(\<exists>s. join xs = Inr s) \<longleftrightarrow> list_all stringable xs" by simp
      with True False sx show ?thesis by (auto split: sum.splits)
    qed
  next
    case nx: False
    with "9.IH"(1) have hx: "(\<exists>s. ToString x = Inr s) \<longleftrightarrow> stringable x" by simp
    show ?thesis
    proof (cases "ToString x")
      case (Inl e)
      with nx hx show ?thesis by auto
    next
      case (Inr h)
      with hx have sx: "stringable x" by auto
      show ?thesis
      proof (cases "xs = []")
        case True
        with nx Inr sx show ?thesis by simp
      next
        case False
        from "9.IH"(2) [of h] nx Inr False
        have "(\<exists>s. join xs = Inr s) \<longleftrightarrow> list_all stringable xs" by simp
        with nx Inr False sx show ?thesis by (auto split: sum.splits)
      qed
    qed
  qed
qed auto

lemma cleanBullet_convertible:
  "(\<exists>c. cleanBullet b = Inr c) \<longleftrightarrow> bullet_convertible b"
proof -
  have t: "stringable (opt_prop b ''type'') \<longleftrightarrow> (\<exists>s. ToString (opt_prop b ''type'') = Inr s)"
    and x: "stringable (opt_prop b ''text'') \<longleftrightarrow> (\<exists>s. ToString (opt_prop b ''text'') = Inr s)"
    by (simp_all add: ToString_stringable)
  show ?thesis
    unfolding cleanBullet_eq bullet_convertible_def t x
    by (auto split: sum.splits)
qed

lemma cleanBullet_shape:
  "cleanBullet b = Inr c \<Longrightarrow>
   \<exists>ty tx. c = Obj [(js ''type'', Str ty), (js ''text'', Str tx)] \<and> ty \<in> bullet_types"
  unfolding cleanBullet_eq by (auto split: sum.splits if_splits simp: bullet_types_def)

lemma map_throwing_Inl:
  "(\<exists>e. map_throwing f xs = Inl e) \<longleftrightarrow> (\<exists>x \<in> set xs. \<exists>e. f x = Inl e)"
  by (induction xs) (auto split: sum.splits)

text \<open>
  C2, as the code has it. Lines 125 to 143 do not throw for a parsed value that is not
  \<open>null\<close> (nor \<open>undefined\<close>, which \<open>JSON.parse\<close> never yields) and whose bullets, when
  they are an array, have no element with a truthy \<open>type\<close> or \<open>text\<close> that \<open>String\<close>
  cannot convert (an object with a property named \<open>toString\<close>, or an array with such
  an element). They answer with status 200 and the three fields. \<open>summary\<close> is the
  parsed summary when truthy and the empty string otherwise, \<open>rating\<close> the parsed
  rating when truthy and \<open>Risky\<close> otherwise, both passed on as they are, of whatever
  type; \<open>bullets\<close> has one object \<open>{type, text}\<close> for each element of the parsed
  array (none when it is no array), with \<open>type\<close> one of \<open>pro\<close>, \<open>con\<close>, \<open>warning\<close> and
  \<open>text\<close> a string.
\<close>

theorem respond_total_on_convertible_bullets:
  assumes "parsed \<noteq> Null" and "parsed \<noteq> Undefined"
    and "list_all bullet_convertible (case opt_prop parsed ''bullets'' of Arr xs \<Rightarrow> xs | _ \<Rightarrow> [])"
  shows "\<exists>bs. respond parsed
           = Inr \<lparr>status = 200,
                  body = Obj [(js ''summary'', if truthy (opt_prop parsed ''summary'')
                                               then opt_prop parsed ''summary'' else Str (js [])),
                              (js ''bullets'', Arr bs),
                              (js ''rating'', if truthy (opt_prop parsed ''rating'')
                                              then opt_prop parsed ''rating'' else Str (js ''Risky''))]\<rparr>
         \<and> length bs = length (case opt_prop parsed ''bullets'' of Arr xs \<Rightarrow> xs | _ \<Rightarrow> [])
         \<and> (\<forall>b \<in> set bs. \<exists>ty tx. b = Obj [(js ''type'', Str ty), (js ''text'', Str tx)]
                                   \<and> ty \<in> bullet_types)"
proof -
  define xs where "xs = (case opt_prop parsed ''bullets'' of Arr xs \<Rightarrow> xs | _ \<Rightarrow> [])"
  have "\<forall>x \<in> set xs. \<exists>y. cleanBullet x = Inr y"
    using assms(3) unfolding xs_def [symmetric]
    by (auto simp: list_all_iff cleanBullet_convertible)
  then obtain bs where bs: "map_throwing cleanBullet xs = Inr bs"
    using map_throwing_total by blast
  from map_throwing_Inr [OF bs] have len: "length bs = length xs"
    and each: "\<And>i. i < length xs \<Longrightarrow> cleanBullet (xs ! i) = Inr (bs ! i)"
    by auto
  have shape: "\<exists>ty tx. b = Obj [(js ''type'', Str ty), (js ''text'', Str tx)] \<and> ty \<in> bullet_types"
    if "b \<in> set bs" for b
  proof -
    from that obtain i where i: "i < length bs" "b = bs ! i" by (auto simp: in_set_conv_nth)
    with len have "cleanBullet (xs ! i) = Inr b" using each by simp
    then show ?thesis by (rule cleanBullet_shape)
  qed
  have "respond parsed
           = Inr \<lparr>status = 200,
                  body = Obj [(js ''summary'', if truthy (opt_prop parsed ''summary'')
                                               then opt_prop parsed ''summary'' else Str (js [])),
                              (js ''bullets'', Arr bs),
                              (js ''rating'', if truthy (opt_prop parsed ''rating'')
                                              then opt_prop parsed ''rating'' else Str (js ''Risky''))]\<rparr>"
    using assms(1,2) bs unfolding xs_def
    by (simp add: respond_def and_then_def Let_def get_prop_defined)
  with len shape show ?thesis unfolding xs_def by blast
qed

text \<open>The three conditions are the only ways in which lines 125 to 143 throw.\<close>

lemma respond_throws_iff:
  "(\<exists>e. respond parsed = Inl e) \<longleftrightarrow>
     parsed = Null \<or> parsed = Undefined
   \<or> \<not> list_all bullet_convertible (case opt_prop parsed ''bullets'' of Arr xs \<Rightarrow> xs | _ \<Rightarrow> [])"
proof (cases "parsed = Null \<or> parsed = Undefined")
  case True
  then show ?thesis by (auto simp: respond_def and_then_def)
next
  case False
  define xs where "xs = (case opt_prop parsed ''bullets'' of Arr xs \<Rightarrow> xs | _ \<Rightarrow> [])"
  have "(\<exists>e. respond parsed = Inl e) \<longleftrightarrow> (\<exists>e. map_throwing cleanBullet xs = Inl e)"
    using False unfolding xs_def
    by (auto simp: respond_def and_then_def Let_def get_prop_defined split: sum.splits)
  also have "\<dots> \<longleftrightarrow> (\<exists>x \<in> set xs. \<exists>e. cleanBullet x = Inl e)"
    by (rule map_throwing_Inl)
  also have "\<dots> \<longleftrightarrow> \<not> list_all bullet_convertible xs"
  proof -
    have "(\<exists>e. cleanBullet x = Inl e) \<longleftrightarrow> \<not> bullet_convertible x" for x
      using cleanBullet_convertible [of x] by (cases "cleanBullet x") auto
    then show ?thesis by (auto simp: list_all_iff)
  qed
  finally show ?thesis using False unfolding xs_def by simp
qed

theorem respond_total_on_convertible_bullets_witness:
  "\<exists>bs. respond (Obj [(js ''summary'', Obj [(js ''toString'', Null)]),
                       (js ''bullets'', Arr [Obj [(js ''toString'', Null), (js ''type'', Str (js ''PRO''))], Null])])
           = Inr \<lparr>status = 200,
                  body = Obj [(js ''summary'',
                               if truthy (opt_prop (Obj [(js ''summary'', Obj [(js ''toString'', Null)]),
                       (js ''bullets'', Arr [Obj [(js ''toString'', Null), (js ''type'', Str (js ''PRO''))], Null])]) ''summary'')
                               then opt_prop (Obj [(js ''summary'', Obj [(js ''toString'', Null)]),
                       (js ''bullets'', Arr [Obj [(js ''toString'', Null), (js ''type'', Str (js ''PRO''))], Null])]) ''summary''
                               else Str (js [])),
                              (js ''bullets'', Arr bs),
                              (js ''rating'',
                               if truthy (opt_prop (Obj [(js ''summary'', Obj [(js ''toString'', Null)]),
                       (js ''bullets'', Arr [Obj [(js ''toString'', Null), (js ''type'', Str (js ''PRO''))], Null])]) ''rating'')
                               then opt_prop (Obj [(js ''summary'', Obj [(js ''toString'', Null)]),
                       (js ''bullets'', Arr [Obj [(js ''toString'', Null), (js ''type'', Str (js ''PRO''))], Null])]) ''rating''
                               else Str (js ''Risky''))]\<rparr>
         \<and> length bs = length (case opt_prop (Obj [(js ''summary'', Obj [(js ''toString'', Null)]),
                       (js ''bullets'', Arr [Obj [(js ''toString'', Null), (js ''type'', Str (js ''PRO''))], Null])]) ''bullets'' of Arr xs \<Rightarrow> xs | _ \<Rightarrow> [])
         \<and> (\<forall>b \<in> set bs. \<exists>ty tx. b = Obj [(js ''type'', Str ty), (js ''text'', Str tx)]
                                   \<and> ty \<in> bullet_types)"
proof -
  let ?parsed = "Obj [(js ''summary'', Obj [(js ''toString'', Null)]),
                       (js ''bullets'', Arr [Obj [(js ''toString'', Null), (js ''type'', Str (js ''PRO''))], Null])]"
  have a: "?parsed \<noteq> Null" by simp
  have b: "?parsed \<noteq> Undefined" by simp
  have c: "list_all bullet_convertible (case opt_prop ?parsed ''bullets'' of Arr xs \<Rightarrow> xs | _ \<Rightarrow> [])"
    by (simp add: bullet_convertible_def js_def cu_def)
  from respond_total_on_convertible_bullets [OF a b c] show ?thesis .
qed

lemma parse_null: "JSON_parse (js ''null'') = Some Null"
  by code_simp

text \<open>
  C2 as stated fails. The text \<open>null\<close> is valid JSON and parses to \<open>null\<close>; reading
  \<open>parsed.summary\<close> then throws and the request is answered with status 500. And the
  parsed object \<open>{"summary": true, "rating": "Banana"}\<close> is answered with exactly these
  values, a summary that is no string and a rating outside the enumeration.
\<close>

theorem respond_counterexample:
  "JSON_parse (js ''null'') = Some Null
   \<and> respond Null = Inl TypeError
   \<and> summarize (Obj [(js ''text'', Str (replicate 50 0x61))]) (Resolved (completion_of (js ''null'')))
       = json_error 500 ''Internal server error''
   \<and> respond (Obj [(js ''summary'', Bool True), (js ''rating'', Str (js ''Banana''))])
       = Inr \<lparr>status = 200,
              body = Obj [(js ''summary'', Bool True), (js ''bullets'', Arr []),
                          (js ''rating'', Str (js ''Banana''))]\<rparr>"
proof -
  have ne: "js ''null'' \<noteq> []" by (simp add: js_def)
  have r: "respond Null = Inl TypeError" by (simp add: respond_def and_then_def)
  have "complete (completion_of (js ''null'')) = Inl TypeError"
    using complete_content [OF content_of_completion_of] ne
    by (simp add: parse_completion_Str parse_null and_then_def r)
  then have s: "summarize (Obj [(js ''text'', Str (replicate 50 0x61))]) (Resolved (completion_of (js ''null'')))
       = json_error 500 ''Internal server error''"
    using summarize_accepted [OF valid_fifty, of "Resolved (completion_of (js ''null''))"]
    by (simp add: call_and_answer_def)
  have d: "respond (Obj [(js ''summary'', Bool True), (js ''rating'', Str (js ''Banana''))])
       = Inr \<lparr>status = 200,
              body = Obj [(js ''summary'', Bool True), (js ''bullets'', Arr []),
                          (js ''rating'', Str (js ''Banana''))]\<rparr>"
    by (simp add: respond_def and_then_def Let_def js_def cu_def)
  from parse_null r s d show ?thesis by blast
qed

section \<open>The presence test\<close>

text \<open>
  C10. A request whose \<open>text\<close> is the empty string is answered with status 400 and the
  error \<open>Invalid payload: text required\<close>, not with \<open>Text too short\<close>: line 68 tests
  \<open>!text\<close> first, and the empty string is falsy.
\<close>

theorem empty_text_is_invalid_payload:
  assumes "get_prop reqbody ''text'' = Inr (Str (js []))"
  shows "summarize reqbody up = json_error 400 ''Invalid payload: text required''
       \<and> summarize reqbody up \<noteq> json_error 400 ''Text too short''"
  using summarize_try_falsy [OF assms, of up]
  by (simp add: summarize_def js_def json_error_def cu_def)

theorem empty_text_is_invalid_payload_witness:
  "summarize (Obj [(js ''text'', Str (js []))]) Rejected
     = json_error 400 ''Invalid payload: text required''
   \<and> summarize (Obj [(js ''text'', Str (js []))]) Rejected \<noteq> json_error 400 ''Text too short''"
proof -
  have present: "get_prop (Obj [(js ''text'', Str (js []))]) ''text'' = Inr (Str (js []))"
    by simp
  from empty_text_is_invalid_payload [OF present] show ?thesis .
qed

section \<open>Thirty requests in a window\<close>

lemma limiter_other: "c' \<noteq> c \<Longrightarrow> snd (limiter st c' t) c = st c"
  by (simp add: limiter_def Let_def split: prod.splits)

lemma limiter_open:
  "st c = Some (n, r) \<Longrightarrow> t < r \<Longrightarrow>
   limiter st c t = (if n < max_hits then None else Some too_many, st(c \<mapsto> (n + 1, r)))"
  by (auto simp: limiter_def Let_def too_many_def)

lemma limiter_fresh:
  "st c = None \<or> (\<exists>n r. st c = Some (n, r) \<and> r \<le> t) \<Longrightarrow>
   limiter st c t = (None, st(c \<mapsto> (1, t + windowMs)))"
  by (auto simp: limiter_def Let_def max_hits_def)

lemma answers_to_Nil [simp]: "answers_to c [] [] = []"
  by (simp add: answers_to_def)

lemma answers_to_Cons [simp]:
  "answers_to c (ev # evs) (res # ress) =
     (if fst ev = c then res # answers_to c evs ress else answers_to c evs ress)"
  by (simp add: answers_to_def)

lemma length_run_limiter [simp]: "length (run_limiter st evs) = length evs"
  by (induction evs arbitrary: st) (auto split: prod.splits)

lemma answers_to_append:
  "length ress = length evs \<Longrightarrow>
   answers_to c (evs @ evs') (ress @ ress') = answers_to c evs ress @ answers_to c evs' ress'"
  by (simp add: answers_to_def)

lemma run_limiter_append:
  "run_limiter st (evs @ evs') = run_limiter st evs @ run_limiter (final_state st evs) evs'"
  by (induction evs arbitrary: st) (auto split: prod.splits)

lemma map_upt_shift:
  "map f [0 ..< Suc k] = f 0 # map (\<lambda>i. f (Suc i)) [0 ..< k]"
  by (simp add: upt_conv_Cons map_Suc_upt [symmetric] del: upt_Suc)

lemma in_window:
  assumes "st c = Some (n, r)" and "\<forall>(c', t) \<in> set evs. c' = c \<longrightarrow> t < r"
  shows "answers_to c evs (run_limiter st evs)
           = map (\<lambda>i. if n + i < max_hits then None else Some too_many)
               [0 ..< length (filter (\<lambda>ev. fst ev = c) evs)]
       \<and> (\<exists>n'. final_state st evs c = Some (n', r))"
  using assms
proof (induction evs arbitrary: st n)
  case Nil
  then show ?case by simp
next
  case (Cons ev evs)
  obtain c' t where ev: "ev = (c', t)" by (cases ev)
  obtain res st' where l: "limiter st c' t = (res, st')" by (cases "limiter st c' t")
  have rest: "\<forall>(c', t) \<in> set evs. c' = c \<longrightarrow> t < r" using Cons.prems(2) by simp
  have run: "run_limiter st (ev # evs) = res # run_limiter st' evs"
    and fin: "final_state st (ev # evs) = final_state st' evs"
    by (simp_all add: ev l)
  show ?case
  proof (cases "c' = c")
    case False
    have "st' c = Some (n, r)"
      using limiter_other [OF False, of st t] l Cons.prems(1) by simp
    from Cons.IH [of st' n, OF this rest] False show ?thesis
      unfolding run fin by (simp add: ev)
  next
    case True
    with Cons.prems(2) ev have t: "t < r" by simp
    from limiter_open [of st c n r t, OF Cons.prems(1) t] l True
    have res: "res = (if n < max_hits then None else Some too_many)"
      and st': "st' = st(c \<mapsto> (n + 1, r))"
      by simp_all
    have "st' c = Some (n + 1, r)" by (simp add: st')
    from Cons.IH [of st' "n + 1", OF this rest]
    have ih: "answers_to c evs (run_limiter st' evs)
           = map (\<lambda>i. if n + 1 + i < max_hits then None else Some too_many)
               [0 ..< length (filter (\<lambda>ev. fst ev = c) evs)]"
      and f: "\<exists>n'. final_state st' evs c = Some (n', r)"
      by simp_all
    have "answers_to c (ev # evs) (run_limiter st (ev # evs))
        = res # answers_to c evs (run_limiter st' evs)"
      unfolding run by (simp add: ev True)
    also have "\<dots> = map (\<lambda>i. if n + i < max_hits then None else Some too_many)
               [0 ..< Suc (length (filter (\<lambda>ev. fst ev = c) evs))]"
      unfolding ih res map_upt_shift by simp
    finally show ?thesis using f unfolding fin by (simp add: ev True)
  qed
qed

text \<open>
  C8. A client without an open window sends a request at time \<open>t\<^sub>0\<close>, then any number
  of requests within the 60 seconds that follow, among the requests of other clients,
  and one more request when the 60 seconds are over. Of its requests in the window
  exactly the first 30 pass the limiter; the 31st and all later ones are answered with
  status 429 and \<open>{ error: "Too many requests, please try again later." }\<close>; the
  request after the window passes again.
\<close>

theorem thirty_per_window:
  assumes "st c = None \<or> (\<exists>n r. st c = Some (n, r) \<and> r \<le> t0)"
    and "\<forall>(c', t) \<in> set evs. c' = c \<longrightarrow> t0 \<le> t \<and> t < t0 + windowMs"
    and "t0 + windowMs \<le> t1"
  shows "answers_to c ((c, t0) # evs @ [(c, t1)]) (run_limiter st ((c, t0) # evs @ [(c, t1)]))
       = map (\<lambda>i. if i < 30 then None
                   else Some \<lparr>status = 429,
                              body = Obj [(js ''error'',
                                           Str (js ''Too many requests, please try again later.''))]\<rparr>)
           [0 ..< Suc (length (filter (\<lambda>ev. fst ev = c) evs))]
         @ [None]"
proof -
  define st1 where "st1 = st(c \<mapsto> (1, t0 + windowMs))"
  define k where "k = length (filter (\<lambda>ev. fst ev = c) evs)"
  have first: "limiter st c t0 = (None, st1)"
    unfolding st1_def using assms(1) by (rule limiter_fresh)
  have s1: "st1 c = Some (1, t0 + windowMs)" by (simp add: st1_def)
  have w: "\<forall>(c', t) \<in> set evs. c' = c \<longrightarrow> t < t0 + windowMs"
    using assms(2) by auto
  from in_window [of st1 c 1 "t0 + windowMs" evs, OF s1 w] obtain n' where
    mid: "answers_to c evs (run_limiter st1 evs)
           = map (\<lambda>i. if 1 + i < max_hits then None else Some too_many) [0 ..< k]"
    and fin: "final_state st1 evs c = Some (n', t0 + windowMs)"
    unfolding k_def by auto
  have "final_state st1 evs c = None
      \<or> (\<exists>n r. final_state st1 evs c = Some (n, r) \<and> r \<le> t1)"
    using fin assms(3) by simp
  then have last: "limiter (final_state st1 evs) c t1
           = (None, (final_state st1 evs)(c \<mapsto> (1, t1 + windowMs)))"
    by (rule limiter_fresh)
  have "run_limiter (final_state st1 evs) [(c, t1)] = [None]"
    unfolding run_limiter.simps last by simp
  then have run: "run_limiter st ((c, t0) # evs @ [(c, t1)])
           = None # run_limiter st1 evs @ [None]"
    unfolding run_limiter.simps first by (simp add: run_limiter_append)
  have "answers_to c ((c, t0) # evs @ [(c, t1)]) (run_limiter st ((c, t0) # evs @ [(c, t1)]))
      = None # answers_to c evs (run_limiter st1 evs) @ [None]"
    unfolding run by (simp add: answers_to_append)
  also have "\<dots> = None # map (\<lambda>i. if 1 + i < max_hits then None else Some too_many) [0 ..< k] @ [None]"
    unfolding mid ..
  also have "\<dots> = map (\<lambda>i. if i < 30 then None else Some too_many) [0 ..< Suc k] @ [None]"
    unfolding map_upt_shift by (simp add: max_hits_def)
  finally show ?thesis unfolding k_def by (simp add: too_many_def message_def)
qed


lemma map_below_limit:
  "map (\<lambda>i. if i < n then a else b) [0 ..< Suc n] = replicate n a @ [b]"
proof -
  have "map (\<lambda>i. if i < n then a else b) [0 ..< n] = map (\<lambda>i. a) [0 ..< n]"
    by (rule map_cong) auto
  then show ?thesis by (simp add: map_replicate_const)
qed

theorem thirty_per_window_witness:
  "answers_to (js ''10.0.0.1'')
     ((js ''10.0.0.1'', 0) # map (\<lambda>i. (js ''10.0.0.1'', 1000 * i)) [1 ..< 31] @ [(js ''10.0.0.1'', 60000)])
     (run_limiter (\<lambda>c. None)
        ((js ''10.0.0.1'', 0) # map (\<lambda>i. (js ''10.0.0.1'', 1000 * i)) [1 ..< 31] @ [(js ''10.0.0.1'', 60000)]))
   = replicate 30 None
     @ [Some \<lparr>status = 429,
               body = Obj [(js ''error'', Str (js ''Too many requests, please try again later.''))]\<rparr>]
     @ [None]"
proof -
  let ?c = "js ''10.0.0.1''"
  let ?evs = "map (\<lambda>i. (?c, 1000 * i)) [1 ..< 31]"
  have a: "(\<lambda>c. None) ?c = None \<or> (\<exists>n r. (\<lambda>c. None :: (nat \<times> nat) option) ?c = Some (n, r) \<and> r \<le> 0)"
    by simp
  have b: "\<forall>(c', t) \<in> set ?evs. c' = ?c \<longrightarrow> 0 \<le> t \<and> t < 0 + windowMs"
    by (auto simp: windowMs_def)
  have c: "0 + windowMs \<le> 60000" by (simp add: windowMs_def)
  have k: "length (filter (\<lambda>ev. fst ev = ?c) ?evs) = 30"
    by (simp add: filter_map comp_def)
  from thirty_per_window [of "\<lambda>c. None" ?c 0 ?evs 60000, OF a b c]
  show ?thesis unfolding k map_below_limit by simp
qed

end
